theory Spec2Isabelle
  imports Complex_Main
begin

section \<open>Data model\<close>

text \<open>
  The program is a single Python module, \<^verbatim>\<open>nomad-diner.py\<close>. It talks to four
  web services (geocoding, nearby search, place details, directions) and turns their
  JSON answers into a list of restaurant dictionaries.

  Conventions of the embedding:
  \<^item> a Python \<^verbatim>\<open>float\<close> is a \<^typ>\<open>real\<close> and a Python \<^verbatim>\<open>int\<close> is an \<^typ>\<open>int\<close>;
    the pipeline computes with them exactly, and the Distance Calculator is modelled a
    second time with the rounding of IEEE doubles, in a section of its own;
  \<^item> a JSON object is a record; a key read as \<^verbatim>\<open>d['k']\<close> is a field, a key read
    as \<^verbatim>\<open>d.get('k', default)\<close> is an optional field;
  \<^item> \<^verbatim>\<open>xs[0]\<close> on a list raises \<^verbatim>\<open>IndexError\<close> when the list is empty;
  \<^item> every function that issues HTTP requests returns, next to its result, the list of
    requests it issued, in order.
\<close>

type_synonym coordinate = "real \<times> real"

text \<open>The geocoding answer: \<^verbatim>\<open>status\<close> and, per result, \<^verbatim>\<open>geometry.location\<close>.\<close>

record geocode_response =
  geo_status :: string
  geo_results :: "coordinate list"

text \<open>One element of the nearby-search answer's \<^verbatim>\<open>results\<close>.\<close>

record place =
  place_id :: string
  location :: coordinate

record search_response =
  res_status :: string
  res_results :: "place list"

text \<open>The \<^verbatim>\<open>result\<close> object of a place-details answer.\<close>

record details =
  name :: string
  rating :: "real option"
  user_ratings_total :: "int option"
  price_level :: "int option"
  formatted_address :: "string option"
  formatted_phone_number :: "string option"
  website :: "string option"
  editorial_summary :: "string option"

record leg =
  duration_text :: string

record route =
  legs :: "leg list"

record directions_response =
  eta_status :: string
  routes :: "route list option"

text \<open>The dictionary appended to \<^verbatim>\<open>restaurant_details\<close>, key by key.\<close>

record restaurant =
  Name :: string
  Rating :: "real + string"
  Number_of_Ratings :: "int + string"
  Price_Level :: string
  Address :: string
  Phone_Number :: string
  Website :: string
  Summary :: string
  Driving_ETA :: "string option"
  Haversine_Distance :: int

text \<open>
  The exceptions the module can raise: the \<^verbatim>\<open>ValueError\<close> of
  \<^verbatim>\<open>get_location_coordinates\<close>, whose message embeds the whole geocoding response;
  \<^verbatim>\<open>IndexError\<close> from \<^verbatim>\<open>[0]\<close>; and the plain \<^verbatim>\<open>ValueError\<close> of \<^verbatim>\<open>float\<close>,
  of tuple unpacking and of \<^verbatim>\<open>math.sqrt\<close>.
\<close>

datatype error =
  CouldNotFetchCoordinates geocode_response
  | IndexError
  | ValueError

text \<open>The four services, each a function of its request, and the requests themselves.\<close>

record world =
  geocode :: "string \<Rightarrow> geocode_response"
  nearbysearch :: "coordinate \<Rightarrow> int \<Rightarrow> string option \<Rightarrow> search_response"
  place_details :: "string \<Rightarrow> details"
  directions :: "coordinate \<Rightarrow> coordinate \<Rightarrow> directions_response"

datatype request =
  Geocode string
  | NearbySearch coordinate int "string option"
  | PlaceDetails string
  | Directions coordinate coordinate

type_synonym 'a io = "(error + 'a) \<times> request list"

text \<open>The keyword arguments of \<^verbatim>\<open>get_nearby_restaurants\<close> after \<^verbatim>\<open>location\<close>.\<close>

record criteria =
  distance :: int
  min_rating :: "real option"
  max_price :: "int option"
  search :: "string option"
  max_results :: int
  get_eta :: bool
  eta_threshold :: "int option"

section \<open>Location Resolver: the geocoding branch\<close>

text \<open>
  \<^verbatim>\<open>
  response = requests.get(endpoint, params=params).json()
  if response['status'] != 'OK':
      raise ValueError(f"Could not fetch coordinates ... Response: {json.dumps(response, indent=4)}")
  latlng = response['results'][0]['geometry']['location']
  return latlng['lat'], latlng['lng']
  \<close>
\<close>

definition get_location_coordinates :: "world \<Rightarrow> string \<Rightarrow> coordinate io" where
  "get_location_coordinates w location_str =
     (let response = geocode w location_str in
      (if geo_status response \<noteq> ''OK'' then Inl (CouldNotFetchCoordinates response)
       else (case geo_results response of
               [] \<Rightarrow> Inl IndexError
             | latlng # _ \<Rightarrow> Inr latlng),
       [Geocode location_str]))"

section \<open>Travel-Time Fetcher\<close>

text \<open>
  \<^verbatim>\<open>
  eta_res = requests.get(directions_endpoint, params=directions_params).json()
  if eta_res['status'] != 'OK' or not eta_res.get('routes'):
      return None
  return eta_res['routes'][0]['legs'][0]['duration']['text']
  \<close>
  \<^verbatim>\<open>not eta_res.get('routes')\<close> holds for a missing key and for an empty list.
\<close>

definition get_driving_eta :: "world \<Rightarrow> coordinate \<Rightarrow> coordinate \<Rightarrow> string option io" where
  "get_driving_eta w origin destination =
     (let eta_res = directions w origin destination in
      (if eta_status eta_res \<noteq> ''OK'' then Inr None
       else (case routes eta_res of
               None \<Rightarrow> Inr None
             | Some [] \<Rightarrow> Inr None
             | Some (r # _) \<Rightarrow>
                 (case legs r of
                    [] \<Rightarrow> Inl IndexError
                  | l # _ \<Rightarrow> Inr (Some (duration_text l)))),
       [Directions origin destination]))"

section \<open>Regular expressions, as far as \<^verbatim>\<open>is_coordinate\<close> needs them\<close>

text \<open>
  The pattern of \<^verbatim>\<open>is_coordinate\<close> uses character classes, concatenation,
  alternation, \<^verbatim>\<open>?\<close>, \<^verbatim>\<open>*\<close> and \<^verbatim>\<open>+\<close>; it has no back-references, so whether
  Python's backtracking matcher finds a match between \<^verbatim>\<open>^\<close> and \<^verbatim>\<open>$\<close> is
  membership in the pattern's language. The matcher below decides it by derivatives.
\<close>

datatype regex =
  Zero
  | One
  | Chars "char list"
  | Alt regex regex
  | Seq regex regex
  | Star regex

definition Opt :: "regex \<Rightarrow> regex" where
  "Opt r = Alt r One"

definition Plus :: "regex \<Rightarrow> regex" where
  "Plus r = Seq r (Star r)"

definition Lit :: "char \<Rightarrow> regex" where
  "Lit c = Chars [c]"

fun nullable :: "regex \<Rightarrow> bool" where
  "nullable Zero = False"
| "nullable One = True"
| "nullable (Chars cs) = False"
| "nullable (Alt r s) = (nullable r \<or> nullable s)"
| "nullable (Seq r s) = (nullable r \<and> nullable s)"
| "nullable (Star r) = True"

fun deriv :: "char \<Rightarrow> regex \<Rightarrow> regex" where
  "deriv c Zero = Zero"
| "deriv c One = Zero"
| "deriv c (Chars cs) = (if c \<in> set cs then One else Zero)"
| "deriv c (Alt r s) = Alt (deriv c r) (deriv c s)"
| "deriv c (Seq r s) =
     (if nullable r then Alt (Seq (deriv c r) s) (deriv c s) else Seq (deriv c r) s)"
| "deriv c (Star r) = Seq (deriv c r) (Star r)"

fun fullmatch :: "regex \<Rightarrow> string \<Rightarrow> bool" where
  "fullmatch r [] = nullable r"
| "fullmatch r (c # cs) = fullmatch (deriv c r) cs"

text \<open>
  The language of a regular expression, as a relation between the expression and a
  word. It is used to reason about what \<^const>\<open>fullmatch\<close> accepts.
\<close>

inductive matches :: "regex \<Rightarrow> string \<Rightarrow> bool" where
  m_One: "matches One []"
| m_Chars: "c \<in> set cs \<Longrightarrow> matches (Chars cs) [c]"
| m_AltL: "matches r s \<Longrightarrow> matches (Alt r q) s"
| m_AltR: "matches q s \<Longrightarrow> matches (Alt r q) s"
| m_Seq: "matches r u \<Longrightarrow> matches q v \<Longrightarrow> matches (Seq r q) (u @ v)"
| m_StarNil: "matches (Star r) []"
| m_StarStep: "matches r u \<Longrightarrow> matches (Star r) v \<Longrightarrow> matches (Star r) (u @ v)"

text \<open>
  Strings are over the characters of code point below 256. Of these, \<^verbatim>\<open>\s\<close> in a
  \<^verbatim>\<open>str\<close> pattern matches the twelve characters of \<open>whitespace\<close> (those for which
  \<^verbatim>\<open>str.isspace\<close> holds), and \<^verbatim>\<open>\d\<close> matches the ten ASCII digits.
\<close>

definition whitespace :: "char list" where
  "whitespace = [CHR 0x09, CHR 0x0A, CHR 0x0B, CHR 0x0C, CHR 0x0D, CHR 0x1C, CHR 0x1D,
                 CHR 0x1E, CHR 0x1F, CHR 0x20, CHR 0x85, CHR 0xA0]"

definition digits :: "char list" where
  "digits = ''0123456789''"

section \<open>Location Resolver: the coordinate-literal branch\<close>

text \<open>
  \<^verbatim>\<open>
  pattern = r'^[-+]?([1-8]?\d(\.\d+)?|90(\.0+)?),\s*[-+]?(180(\.0+)?|((1[0-7]\d)|([1-9]?\d))(\.\d+)?)$'
  return bool(re.match(pattern, input_str))
  \<close>
  Without \<^verbatim>\<open>re.MULTILINE\<close>, \<^verbatim>\<open>$\<close> matches at the end of the string and also just
  before a newline that ends the string.
\<close>

definition sign_re :: regex where
  "sign_re = Opt (Chars ''-+'')"

definition fraction_re :: "regex \<Rightarrow> regex" where
  "fraction_re d = Opt (Seq (Lit CHR ''.'') (Plus d))"

definition lat_re :: regex where
  "lat_re =
     Alt (Seq (Opt (Chars ''12345678'')) (Seq (Chars digits) (fraction_re (Chars digits))))
         (Seq (Lit CHR ''9'') (Seq (Lit CHR ''0'') (fraction_re (Lit CHR ''0''))))"

definition lng_re :: regex where
  "lng_re =
     Alt (Seq (Lit CHR ''1'') (Seq (Lit CHR ''8'') (Seq (Lit CHR ''0'')
            (fraction_re (Lit CHR ''0'')))))
         (Seq (Alt (Seq (Lit CHR ''1'') (Seq (Chars ''01234567'') (Chars digits)))
                   (Seq (Opt (Chars ''123456789'')) (Chars digits)))
              (fraction_re (Chars digits)))"

definition pattern :: regex where
  "pattern =
     Seq sign_re (Seq lat_re (Seq (Lit CHR '','')
       (Seq (Star (Chars whitespace)) (Seq sign_re lng_re))))"

definition is_coordinate :: "string \<Rightarrow> bool" where
  "is_coordinate input_str =
     (fullmatch pattern input_str \<or>
      (input_str \<noteq> [] \<and> last input_str = CHR 0x0A \<and> fullmatch pattern (butlast input_str)))"

text \<open>\<^verbatim>\<open>str.split(sep)\<close> for a one-character separator: it cuts at every occurrence.\<close>

fun py_split :: "char \<Rightarrow> string \<Rightarrow> string list" where
  "py_split sep [] = [[]]"
| "py_split sep (c # cs) =
     (if c = sep then [] # py_split sep cs
      else (case py_split sep cs of
              [] \<Rightarrow> [[c]]
            | p # ps \<Rightarrow> (c # p) # ps))"

text \<open>
  \<^verbatim>\<open>float(s)\<close> on a string: white space is stripped at both ends, then an optional
  sign and a decimal numeral are read. Only plain decimal notation is modelled (digits
  with an optional point); on anything else the model raises \<^verbatim>\<open>ValueError\<close>
  (\<open>None\<close>). Exponents, \<^verbatim>\<open>inf\<close>, \<^verbatim>\<open>nan\<close> and digit-group underscores, which Python
  also reads, cannot occur in a string that \<^const>\<open>is_coordinate\<close> accepts, and the
  module calls \<^verbatim>\<open>float\<close> on a string only behind that test.

  \<^verbatim>\<open>float\<close> strips fewer characters than \<^verbatim>\<open>\s\<close> matches: the four information
  separators U+001C to U+001F are white space for \<^verbatim>\<open>\s\<close>, and \<^verbatim>\<open>float\<close> leaves
  them in place (\<^verbatim>\<open>float("\x1c2")\<close> raises \<^verbatim>\<open>ValueError\<close>).
\<close>

definition float_space :: "char list" where
  "float_space = [CHR 0x09, CHR 0x0A, CHR 0x0B, CHR 0x0C, CHR 0x0D, CHR 0x20, CHR 0x85, CHR 0xA0]"

definition separators :: "char list" where
  "separators = [CHR 0x1C, CHR 0x1D, CHR 0x1E, CHR 0x1F]"

definition strip :: "string \<Rightarrow> string" where
  "strip s = rev (dropWhile (\<lambda>c. c \<in> set float_space) (rev (dropWhile (\<lambda>c. c \<in> set float_space) s)))"

definition digit_val :: "char \<Rightarrow> nat" where
  "digit_val c = of_char c - 48"

definition nat_of_digits :: "string \<Rightarrow> nat" where
  "nat_of_digits ds = foldl (\<lambda>n c. 10 * n + digit_val c) 0 ds"

definition unsigned_float :: "string \<Rightarrow> real option" where
  "unsigned_float t =
     (let ip = takeWhile (\<lambda>c. c \<in> set digits) t;
          rest = dropWhile (\<lambda>c. c \<in> set digits) t
      in case rest of
           [] \<Rightarrow> if ip = [] then None else Some (real (nat_of_digits ip))
         | c # fr \<Rightarrow>
             if c = CHR ''.'' \<and> list_all (\<lambda>c. c \<in> set digits) fr \<and> (ip \<noteq> [] \<or> fr \<noteq> [])
             then Some (real (nat_of_digits ip) + real (nat_of_digits fr) / 10 ^ length fr)
             else None)"

definition py_float :: "string \<Rightarrow> real option" where
  "py_float s =
     (case strip s of
        [] \<Rightarrow> None
      | c # u \<Rightarrow>
          if c = CHR ''-'' then map_option uminus (unsigned_float u)
          else if c = CHR ''+'' then unsigned_float u
          else unsigned_float (c # u))"

text \<open>
  Shapes of strings, for the proofs about \<^const>\<open>is_coordinate\<close>: a non-empty run of
  digits; an optional sign; a run of white space that \<^verbatim>\<open>float\<close> strips; and a decimal
  numeral whose value is at most \<open>n\<close> (integer part below \<open>n\<close>, or equal to \<open>n\<close>
  with only zeros after the point).
\<close>

definition is_digits :: "string \<Rightarrow> bool" where
  "is_digits ds \<longleftrightarrow> ds \<noteq> [] \<and> (\<forall>c \<in> set ds. c \<in> set digits)"

definition is_sign :: "string \<Rightarrow> bool" where
  "is_sign s \<longleftrightarrow> s = [] \<or> s = ''-'' \<or> s = ''+''"

definition decimal_upto :: "nat \<Rightarrow> string \<Rightarrow> bool" where
  "decimal_upto n s \<longleftrightarrow>
     (\<exists>ip fr. is_digits ip \<and> (\<forall>c \<in> set fr. c \<in> set digits)
        \<and> s = ip @ (if fr = [] then [] else CHR ''.'' # fr)
        \<and> (nat_of_digits ip < n \<or> (nat_of_digits ip = n \<and> (\<forall>c \<in> set fr. c = CHR ''0''))))"

definition is_space :: "string \<Rightarrow> bool" where
  "is_space ws \<longleftrightarrow> (\<forall>c \<in> set ws. c \<in> set float_space)"

text \<open>
  \<^verbatim>\<open>lat, lng = map(float, location.split(","))\<close>: a \<^verbatim>\<open>ValueError\<close> when a part is
  not a number or when there are not exactly two parts.
\<close>

definition parse_coordinate :: "string \<Rightarrow> error + coordinate" where
  "parse_coordinate location_str =
     (case map py_float (py_split CHR '','' location_str) of
        [Some lat, Some lng] \<Rightarrow> Inr (lat, lng)
      | _ \<Rightarrow> Inl ValueError)"

section \<open>Distance Calculator\<close>

text \<open>
  \<^verbatim>\<open>math.radians(x)\<close> is \<open>x * (pi / 180)\<close>; \<^verbatim>\<open>math.sqrt\<close> raises \<^verbatim>\<open>ValueError\<close>
  on a negative argument; \<^verbatim>\<open>math.atan2(y, x)\<close> is the angle of the point \<open>(x, y)\<close>
  in \<open>(-pi, pi]\<close>.

  The functions below compute over the reals. There the term \<open>a\<close> of the formula lies
  in \<open>[0, 1]\<close>, so neither square root raises. In double arithmetic \<open>a\<close> can round
  to a value just above 1 for antipodal points, and \<^verbatim>\<open>math.sqrt(1 - a)\<close> then
  raises; that is the subject of the double-precision model further down.
\<close>

definition radians :: "real \<Rightarrow> real" where
  "radians x = x * (pi / 180)"

definition py_sqrt :: "real \<Rightarrow> error + real" where
  "py_sqrt x = (if x < 0 then Inl ValueError else Inr (sqrt x))"

definition atan2 :: "real \<Rightarrow> real \<Rightarrow> real" where
  "atan2 y x =
     (if 0 < x then arctan (y / x)
      else if x < 0 then (if 0 \<le> y then arctan (y / x) + pi else arctan (y / x) - pi)
      else if 0 < y then pi / 2
      else if y < 0 then - (pi / 2)
      else 0)"

text \<open>
  \<^verbatim>\<open>
  R = 6371008.8
  lat1 = math.radians(coord1[0]);  lon1 = math.radians(coord1[1])
  lat2 = math.radians(coord2[0]);  lon2 = math.radians(coord2[1])
  dlat = lat2 - lat1;  dlon = lon2 - lon1
  a = math.sin(dlat / 2)**2 + math.cos(lat1) * math.cos(lat2) * math.sin(dlon / 2)**2
  c = 2 * math.atan2(math.sqrt(a), math.sqrt(1 - a))
  return R * c
  \<close>
\<close>

definition haversine_a :: "coordinate \<Rightarrow> coordinate \<Rightarrow> real" where
  "haversine_a coord1 coord2 =
     (let lat1 = radians (fst coord1); lon1 = radians (snd coord1);
          lat2 = radians (fst coord2); lon2 = radians (snd coord2);
          dlat = lat2 - lat1; dlon = lon2 - lon1
      in (sin (dlat / 2))\<^sup>2 + cos lat1 * cos lat2 * (sin (dlon / 2))\<^sup>2)"

definition haversine_distance :: "coordinate \<Rightarrow> coordinate \<Rightarrow> error + real" where
  "haversine_distance coord1 coord2 =
     (let R = 6371008.8; a = haversine_a coord1 coord2
      in case py_sqrt a of
           Inl e \<Rightarrow> Inl e
         | Inr sa \<Rightarrow>
             (case py_sqrt (1 - a) of
                Inl e \<Rightarrow> Inl e
              | Inr sb \<Rightarrow> Inr (R * (2 * atan2 sa sb))))"

section \<open>Place Search Pipeline\<close>

text \<open>Python's \<^verbatim>\<open>round\<close> of a float to an integer: halves go to the even neighbour.\<close>

definition py_round :: "real \<Rightarrow> int" where
  "py_round x =
     (let f = \<lfloor>x\<rfloor>; d = x - of_int f
      in if d < 1 / 2 then f
         else if 1 / 2 < d then f + 1
         else if even f then f else f + 1)"

text \<open>
  The three conditions of the loop body, each with Python's truth test of the criterion
  in front (\<^verbatim>\<open>None\<close> and zero are false):
  \<^verbatim>\<open>
  min_rating and float(details.get('rating', 0)) < min_rating
  max_price and details.get('price_level', 5) > max_price
  get_eta and (not eta_threshold or straight_distance > eta_threshold)
  \<close>
  \<^verbatim>\<open>float(details.get('rating', 0))\<close> is \<open>rating_or_zero\<close> and
  \<^verbatim>\<open>details.get('price_level', 5)\<close> is \<open>price_or_five\<close>.
\<close>

definition rating_or_zero :: "details \<Rightarrow> real" where
  "rating_or_zero d = (case rating d of None \<Rightarrow> 0 | Some r \<Rightarrow> r)"

definition price_or_five :: "details \<Rightarrow> int" where
  "price_or_five d = (case price_level d of None \<Rightarrow> 5 | Some l \<Rightarrow> l)"

definition below_min_rating :: "real option \<Rightarrow> details \<Rightarrow> bool" where
  "below_min_rating mr d =
     (case mr of
        None \<Rightarrow> False
      | Some m \<Rightarrow> m \<noteq> 0 \<and> rating_or_zero d < m)"

definition above_max_price :: "int option \<Rightarrow> details \<Rightarrow> bool" where
  "above_max_price mp d =
     (case mp of
        None \<Rightarrow> False
      | Some p \<Rightarrow> p \<noteq> 0 \<and> price_or_five d > p)"

definition eta_wanted :: "bool \<Rightarrow> int option \<Rightarrow> real \<Rightarrow> bool" where
  "eta_wanted ge thr straight_distance =
     (ge \<and> (case thr of
               None \<Rightarrow> True
             | Some t \<Rightarrow> t = 0 \<or> straight_distance > real_of_int t))"

text \<open>The dictionary built for an accepted candidate.\<close>

definition make_restaurant :: "details \<Rightarrow> string option \<Rightarrow> int \<Rightarrow> restaurant" where
  "make_restaurant d driving_eta rounded_distance =
     \<lparr> Name = name d,
       Rating = (case rating d of None \<Rightarrow> Inr ''N/A'' | Some r \<Rightarrow> Inl r),
       Number_of_Ratings = (case user_ratings_total d of None \<Rightarrow> Inr ''N/A'' | Some n \<Rightarrow> Inl n),
       Price_Level = replicate (nat (case price_level d of None \<Rightarrow> 0 | Some l \<Rightarrow> l)) CHR ''$'',
       Address = (case formatted_address d of None \<Rightarrow> ''N/A'' | Some a \<Rightarrow> a),
       Phone_Number = (case formatted_phone_number d of None \<Rightarrow> ''N/A'' | Some a \<Rightarrow> a),
       Website = (case website d of None \<Rightarrow> ''N/A'' | Some a \<Rightarrow> a),
       Summary = (case editorial_summary d of None \<Rightarrow> ''N/A'' | Some a \<Rightarrow> a),
       Driving_ETA = driving_eta,
       Haversine_Distance = rounded_distance \<rparr>"

text \<open>
  One pass through the body of \<^verbatim>\<open>for result in res['results']\<close>, after the
  \<^verbatim>\<open>break\<close> test: the details request, the two \<^verbatim>\<open>continue\<close> tests, the distance,
  the optional ETA request, and the dictionary. \<open>Skip\<close> is \<^verbatim>\<open>continue\<close>,
  \<open>Accept\<close> is \<^verbatim>\<open>restaurant_details.append(restaurant)\<close>, \<open>Raise\<close> is an
  exception leaving the loop.
\<close>

datatype step = Skip | Accept restaurant | Raise error

definition visit :: "world \<Rightarrow> criteria \<Rightarrow> coordinate \<Rightarrow> place \<Rightarrow> step \<times> request list" where
  "visit w c origin result =
     (let d = place_details w (place_id result);
          asked = [PlaceDetails (place_id result)]
      in if below_min_rating (min_rating c) d then (Skip, asked)
         else if above_max_price (max_price c) d then (Skip, asked)
         else (case haversine_distance origin (location result) of
                 Inl e \<Rightarrow> (Raise e, asked)
               | Inr straight_distance \<Rightarrow>
                   (let rounded_distance = py_round (straight_distance / 10) * 10
                    in if eta_wanted (get_eta c) (eta_threshold c) straight_distance
                       then (case get_driving_eta w origin (location result) of
                               (Inl e, reqs) \<Rightarrow> (Raise e, asked @ reqs)
                             | (Inr driving_eta, reqs) \<Rightarrow>
                                 (Accept (make_restaurant d driving_eta rounded_distance),
                                  asked @ reqs))
                       else (Accept (make_restaurant d None rounded_distance), asked))))"

definition after :: "request list \<Rightarrow> 'a io \<Rightarrow> 'a io" where
  "after reqs r = (fst r, reqs @ snd r)"

text \<open>
  The loop, with the list built so far as an argument:
  \<^verbatim>\<open>
  for result in res['results']:
      if len(restaurant_details) == max_results:
          break
      ...
  return restaurant_details
  \<close>
\<close>

fun collect :: "world \<Rightarrow> criteria \<Rightarrow> coordinate \<Rightarrow> place list \<Rightarrow> restaurant list
                  \<Rightarrow> restaurant list io" where
  "collect w c origin [] restaurant_details = (Inr restaurant_details, [])"
| "collect w c origin (result # others) restaurant_details =
     (if int (length restaurant_details) = max_results c then (Inr restaurant_details, [])
      else (case visit w c origin result of
              (Skip, reqs) \<Rightarrow> after reqs (collect w c origin others restaurant_details)
            | (Accept restaurant, reqs) \<Rightarrow>
                after reqs (collect w c origin others (restaurant_details @ [restaurant]))
            | (Raise e, reqs) \<Rightarrow> (Inl e, reqs)))"

text \<open>
  \<^verbatim>\<open>
  if is_coordinate(location):
      lat, lng = map(float, location.split(","))
  else:
      lat, lng = get_location_coordinates(location)
  \<close>
\<close>

definition resolve_location :: "world \<Rightarrow> string \<Rightarrow> coordinate io" where
  "resolve_location w location_str =
     (if is_coordinate location_str then (parse_coordinate location_str, [])
      else get_location_coordinates w location_str)"

text \<open>
  \<^verbatim>\<open>
  if search:
      params['keyword'] = search
  res = requests.get(endpoint, params=params).json()
  if res['status'] != 'OK':
      return []
  \<close>
  and then the loop. \<^verbatim>\<open>if search\<close> is false for \<^verbatim>\<open>None\<close> and for the empty string.
\<close>

definition keyword_of :: "string option \<Rightarrow> string option" where
  "keyword_of s = (case s of None \<Rightarrow> None | Some k \<Rightarrow> if k = [] then None else Some k)"

definition get_nearby_restaurants :: "world \<Rightarrow> string \<Rightarrow> criteria \<Rightarrow> restaurant list io" where
  "get_nearby_restaurants w location_str c =
     (case resolve_location w location_str of
        (Inl e, reqs) \<Rightarrow> (Inl e, reqs)
      | (Inr origin, reqs) \<Rightarrow>
          (let res = nearbysearch w origin (distance c) (keyword_of (search c));
               asked = reqs @ [NearbySearch origin (distance c) (keyword_of (search c))]
           in if res_status res \<noteq> ''OK'' then (Inr [], asked)
              else after asked (collect w c origin (res_results res) [])))"

text \<open>
  For stating what the loop returns: the dictionaries of the candidates that one pass of
  the loop body accepts, in the candidates' order; and the rating a dictionary shows,
  with \<^verbatim>\<open>"N/A"\<close> read as 0.
\<close>

definition shown_rating :: "restaurant \<Rightarrow> real" where
  "shown_rating r = (case Rating r of Inl x \<Rightarrow> x | Inr _ \<Rightarrow> 0)"

definition accepted :: "world \<Rightarrow> criteria \<Rightarrow> coordinate \<Rightarrow> place list \<Rightarrow> restaurant list" where
  "accepted w c origin ps =
     List.map_filter (\<lambda>p. case fst (visit w c origin p) of Accept r \<Rightarrow> Some r | _ \<Rightarrow> None) ps"

section \<open>Distance Calculator in double precision\<close>

text \<open>
  A Python \<^verbatim>\<open>float\<close> is an IEEE 754 binary64 number, and each operation of
  \<^verbatim>\<open>haversine_distance\<close> rounds its exact result to the nearest such number, a
  half going to the even mantissa. \<open>fl\<close> is that rounding: 53 significant bits, so
  the last bit of \<open>x\<close> has exponent \<open>\<lfloor>log 2 \<bar>x\<bar>\<rfloor> - 52\<close>, and never less than
  \<open>-1074\<close> (the subnormal range). The doubles are the finite ones, as reals;
  infinities and NaN are not modelled, and no operation of the formula overflows on
  finite arguments.
\<close>

definition fl :: "real \<Rightarrow> real" where
  "fl x = (if x = 0 then 0
           else let e = max (\<lfloor>log 2 \<bar>x\<bar>\<rfloor> - 52) (- 1074)
                in of_int (py_round (x / 2 powi e)) * 2 powi e)"

text \<open>
  The library: \<^verbatim>\<open>math.sqrt\<close> is correctly rounded, as IEEE 754 requires, and raises
  \<^verbatim>\<open>ValueError\<close> on a negative argument. \<^verbatim>\<open>math.sin\<close>, \<^verbatim>\<open>math.cos\<close> and
  \<^verbatim>\<open>math.atan2\<close> are taken to be correctly rounded as well, and \<^verbatim>\<open>x ** 2\<close> to be
  the rounded square. \<^verbatim>\<open>math.radians(x)\<close> is \<^verbatim>\<open>x * degToRad\<close>, where CPython
  defines \<^verbatim>\<open>degToRad\<close> as \<^verbatim>\<open>Py_MATH_PI / 180.0\<close> and \<^verbatim>\<open>Py_MATH_PI\<close> as the
  decimal \<^verbatim>\<open>3.14159265358979323846\<close>.
\<close>

definition math_pi :: real where
  "math_pi = fl 3.14159265358979323846"

definition deg_to_rad :: real where
  "deg_to_rad = fl (math_pi / 180)"

definition math_radians :: "real \<Rightarrow> real" where
  "math_radians x = fl (x * deg_to_rad)"

definition math_sin :: "real \<Rightarrow> real" where
  "math_sin x = fl (sin x)"

definition math_cos :: "real \<Rightarrow> real" where
  "math_cos x = fl (cos x)"

definition math_sqrt :: "real \<Rightarrow> error + real" where
  "math_sqrt x = (if x < 0 then Inl ValueError else Inr (fl (sqrt x)))"

definition math_atan2 :: "real \<Rightarrow> real \<Rightarrow> real" where
  "math_atan2 y x = fl (atan2 y x)"

text \<open>
  The function of the source once more, every operation rounded. The literal
  \<^verbatim>\<open>6371008.8\<close> is rounded when it is read, and \<^verbatim>\<open>math.sqrt(a)\<close> is evaluated
  before \<^verbatim>\<open>math.sqrt(1 - a)\<close>.
\<close>

definition haversine_a_double :: "coordinate \<Rightarrow> coordinate \<Rightarrow> real" where
  "haversine_a_double coord1 coord2 =
     (let lat1 = math_radians (fst coord1); lon1 = math_radians (snd coord1);
          lat2 = math_radians (fst coord2); lon2 = math_radians (snd coord2);
          dlat = fl (lat2 - lat1); dlon = fl (lon2 - lon1)
      in fl (fl ((math_sin (fl (dlat / 2)))\<^sup>2)
             + fl (fl (math_cos lat1 * math_cos lat2) * fl ((math_sin (fl (dlon / 2)))\<^sup>2))))"

definition haversine_distance_double :: "coordinate \<Rightarrow> coordinate \<Rightarrow> error + real" where
  "haversine_distance_double coord1 coord2 =
     (let R = fl 6371008.8; a = haversine_a_double coord1 coord2
      in case math_sqrt a of
           Inl e \<Rightarrow> Inl e
         | Inr sa \<Rightarrow>
             (case math_sqrt (fl (1 - a)) of
                Inl e \<Rightarrow> Inl e
              | Inr sb \<Rightarrow> Inr (fl (R * fl (2 * math_atan2 sa sb)))))"

section \<open>A sample world\<close>

text \<open>
  Four restaurants for the concrete runs below. \<open>due_north m\<close> is the point \<open>m\<close>
  metres north of the origin \<open>(0, 0)\<close> along the meridian, for the Earth radius of
  \<^const>\<open>haversine_distance\<close>.
\<close>

definition due_north :: "real \<Rightarrow> coordinate" where
  "due_north m = (m / 6371008.8 * 180 / pi, 0)"

definition no_details :: details where
  "no_details =
     \<lparr> name = ''Unknown'', rating = None, user_ratings_total = None, price_level = None,
       formatted_address = None, formatted_phone_number = None, website = None,
       editorial_summary = None \<rparr>"

definition sample_details :: "string \<Rightarrow> details" where
  "sample_details pid =
     (if pid = ''a'' then no_details\<lparr> name := ''Alfa'', rating := Some 4.5, price_level := Some 2 \<rparr>
      else if pid = ''b'' then no_details\<lparr> name := ''Bravo'', rating := Some 3 \<rparr>
      else if pid = ''c'' then no_details\<lparr> name := ''Charlie'', price_level := Some 4 \<rparr>
      else if pid = ''d'' then no_details\<lparr> name := ''Delta'', rating := Some 4.8, price_level := Some 1 \<rparr>
      else no_details)"

definition sample_places :: "place list" where
  "sample_places =
     [\<lparr> place_id = ''b'', location = due_north 0 \<rparr>,
      \<lparr> place_id = ''c'', location = due_north 0 \<rparr>,
      \<lparr> place_id = ''a'', location = due_north 400 \<rparr>,
      \<lparr> place_id = ''d'', location = due_north 1200 \<rparr>]"

definition sample_world :: world where
  "sample_world =
     \<lparr> geocode = (\<lambda>address.
         if address = ''Springfield''
         then \<lparr> geo_status = ''OK'', geo_results = [(40, -75), (39, -89)] \<rparr>
         else \<lparr> geo_status = ''ZERO_RESULTS'', geo_results = [] \<rparr>),
       nearbysearch = (\<lambda>origin radius keyword.
         if keyword = Some ''sushi''
         then \<lparr> res_status = ''ZERO_RESULTS'', res_results = [] \<rparr>
         else \<lparr> res_status = ''OK'', res_results = sample_places \<rparr>),
       place_details = sample_details,
       directions = (\<lambda>origin destination.
         if 0 \<le> fst destination
         then \<lparr> eta_status = ''OK'',
                routes = Some [\<lparr> legs = [\<lparr> duration_text = ''3 mins'' \<rparr>] \<rparr>] \<rparr>
         else \<lparr> eta_status = ''NOT_FOUND'', routes = Some [] \<rparr>) \<rparr>"

definition sample_criteria :: criteria where
  "sample_criteria =
     \<lparr> distance = 20000, min_rating = None, max_price = None, search = None,
       max_results = 25, get_eta = False, eta_threshold = None \<rparr>"

section \<open>Auxiliary lemmas\<close>

subsection \<open>The haversine formula over the reals\<close>

lemma hav_ring:
  fixes c1 c2 s1 s2 k :: real
  shows "(1 - (c2 * c1 + s2 * s1)) / 2 + c1 * c2 * ((1 - k) / 2) = (1 - (s1 * s2 + c1 * c2 * k)) / 2"
  by (simp add: field_simps)

lemma haversine_a_alt:
  "haversine_a (x1, y1) (x2, y2) =
     (1 - (sin (radians x1) * sin (radians x2)
           + cos (radians x1) * cos (radians x2) * cos (radians y2 - radians y1))) / 2"
proof -
  have h: "(sin (t / 2))\<^sup>2 = (1 - cos t) / 2" for t :: real
    using cos_double_sin [of "t / 2"] by simp
  show ?thesis
    unfolding haversine_a_def Let_def fst_conv snd_conv h cos_diff [of "radians x2" "radians x1"]
    by (rule hav_ring)
qed

lemma prod_abs_le: "2 * \<bar>a * b\<bar> \<le> a\<^sup>2 + b\<^sup>2" for a b :: real
proof -
  have "0 \<le> (\<bar>a\<bar> - \<bar>b\<bar>)\<^sup>2" by simp
  then show ?thesis by (simp add: power2_diff abs_mult)
qed

lemma central_cos_bounds:
  fixes x y d :: real
  shows "\<bar>sin x * sin y + cos x * cos y * cos d\<bar> \<le> 1"
proof -
  have "\<bar>cos x * cos y * cos d\<bar> = \<bar>cos x * cos y\<bar> * \<bar>cos d\<bar>" by (simp add: abs_mult)
  also have "\<dots> \<le> \<bar>cos x * cos y\<bar> * 1"
    by (rule mult_left_mono) simp_all
  finally have c: "\<bar>cos x * cos y * cos d\<bar> \<le> \<bar>cos x * cos y\<bar>" by simp
  have add: "2 * A \<le> p + q \<Longrightarrow> 2 * B \<le> r + s \<Longrightarrow> 2 * (A + B) \<le> (p + r) + (q + s)"
    for A B p q r s :: real by simp
  have "2 * (\<bar>sin x * sin y\<bar> + \<bar>cos x * cos y\<bar>) \<le> ((sin x)\<^sup>2 + (cos x)\<^sup>2) + ((sin y)\<^sup>2 + (cos y)\<^sup>2)"
    by (rule add [OF prod_abs_le prod_abs_le])
  then have "\<bar>sin x * sin y\<bar> + \<bar>cos x * cos y\<bar> \<le> 1" by simp
  with c show ?thesis by linarith
qed

lemma haversine_a_range: "0 \<le> haversine_a p q \<and> haversine_a p q \<le> 1"
proof -
  obtain x1 y1 x2 y2 where pq: "p = (x1, y1)" "q = (x2, y2)" by (cases p, cases q) blast
  show ?thesis
    unfolding pq haversine_a_alt
    using central_cos_bounds [of "radians x1" "radians x2" "radians y2 - radians y1"]
    by (simp add: abs_le_iff)
qed

lemma haversine_a_sym: "haversine_a p q = haversine_a q p"
proof -
  have s: "(sin ((b - a) / 2))\<^sup>2 = (sin ((a - b) / 2))\<^sup>2" for a b :: real
  proof -
    have "(b - a) / 2 = - ((a - b) / 2)" by (simp add: field_simps)
    then show ?thesis by (simp only: sin_minus power2_minus)
  qed
  show ?thesis
    unfolding haversine_a_def Let_def
    by (simp add: s [of "radians (fst q)"] s [of "radians (snd q)"] mult.commute)
qed

lemma haversine_a_same: "haversine_a p p = 0"
  by (simp add: haversine_a_def)

lemma haversine_distance_eq:
  "haversine_distance p q =
     Inr (6371008.8 * (2 * atan2 (sqrt (haversine_a p q)) (sqrt (1 - haversine_a p q))))"
  using haversine_a_range [of p q]
  by (simp add: haversine_distance_def py_sqrt_def Let_def)

lemma haversine_distance_sym: "haversine_distance p q = haversine_distance q p"
  by (simp add: haversine_distance_eq haversine_a_sym [of p q])

lemma haversine_distance_same: "haversine_distance p p = Inr 0"
  by (simp add: haversine_distance_eq haversine_a_same atan2_def)

text \<open>
  Over the reals the distance is symmetric, zero between equal points, and always
  returned; and for the antipode of a point the term \<open>a\<close> is exactly 1, the largest
  value for which \<^verbatim>\<open>math.sqrt(1 - a)\<close> is defined.
\<close>

lemma haversine_distance_real:
  "haversine_distance p q = haversine_distance q p \<and>
   haversine_distance p p = Inr 0 \<and>
   (\<exists>d. haversine_distance p q = Inr d)"
proof (intro conjI)
  show "haversine_distance p q = haversine_distance q p" by (rule haversine_distance_sym)
  show "haversine_distance p p = Inr 0" by (rule haversine_distance_same)
  show "\<exists>d. haversine_distance p q = Inr d" unfolding haversine_distance_eq by (rule exI) (rule refl)
qed

lemma haversine_a_antipodal: "haversine_a (lat, lon) (- lat, lon + 180) = 1"
proof -
  have dlat: "(radians (- lat) - radians lat) / 2 = - radians lat"
    by (simp add: radians_def)
  have dlon: "(radians (lon + 180) - radians lon) / 2 = pi / 2"
    by (simp add: radians_def algebra_simps)
  have c: "cos (radians (- lat)) = cos (radians lat)"
    by (simp add: radians_def)
  show ?thesis
    unfolding haversine_a_def Let_def fst_conv snd_conv dlat dlon c
    by (simp add: power2_eq_square [symmetric])
qed

lemma atan2_sin_cos:
  assumes "0 \<le> t" "t \<le> pi / 2"
  shows "atan2 (sin t) (cos t) = t"
proof (cases "t = pi / 2")
  case True
  show ?thesis unfolding True by (simp add: atan2_def)
next
  case False
  with assms have "- (pi / 2) < t" "t < pi / 2" by simp_all
  then have "0 < cos t" "arctan (tan t) = t"
    by (simp_all add: cos_gt_zero_pi arctan_tan)
  then show ?thesis by (simp add: atan2_def tan_def)
qed

lemma radians_due_north:
  "radians (fst (due_north m)) = m / 6371008.8" "radians (snd (due_north m)) = 0"
  by (simp_all add: radians_def due_north_def)

lemma haversine_a_due_north: "haversine_a (0, 0) (due_north m) = (sin (m / 6371008.8 / 2))\<^sup>2"
  unfolding haversine_a_def Let_def radians_due_north
  by (simp add: radians_def)

lemma t_bounds:
  assumes "0 \<le> m" "m \<le> 6371008.8 * pi"
  shows "0 \<le> m / 6371008.8 / 2" "m / 6371008.8 / 2 \<le> pi / 2"
  using assms by simp_all

lemma haversine_due_north:
  assumes "0 \<le> m" "m \<le> 6371008.8 * pi"
  shows "haversine_distance (0, 0) (due_north m) = Inr m"
proof -
  define t where "t = m / 6371008.8 / 2"
  have t: "0 \<le> t" "t \<le> pi / 2" unfolding t_def using assms by (rule t_bounds)+
  have a: "haversine_a (0, 0) (due_north m) = (sin t)\<^sup>2"
    unfolding t_def by (rule haversine_a_due_north)
  have sa: "sqrt ((sin t)\<^sup>2) = sin t"
    using t sin_ge_zero [of t] by simp
  have sb: "sqrt (1 - (sin t)\<^sup>2) = cos t"
    using t cos_ge_zero [of t] by (simp add: cos_squared_eq [symmetric])
  have "6371008.8 * (2 * t) = m" by (simp add: t_def)
  then show ?thesis
    unfolding haversine_distance_eq a sa sb atan2_sin_cos [OF t] by simp
qed

lemma haversine_0: "haversine_distance (0, 0) (due_north 0) = Inr 0"
  by (rule haversine_due_north) simp_all

lemma haversine_400: "haversine_distance (0, 0) (due_north 400) = Inr 400"
proof (rule haversine_due_north)
  show "(400::real) \<le> 6371008.8 * pi" using pi_ge_two by linarith
qed simp

lemma haversine_1200: "haversine_distance (0, 0) (due_north 1200) = Inr 1200"
proof (rule haversine_due_north)
  show "(1200::real) \<le> 6371008.8 * pi" using pi_ge_two by linarith
qed simp


subsection \<open>The haversine formula in double precision\<close>

text \<open>Evaluating \<open>fl\<close>: the mantissa is the integer within a half of the scaled value.\<close>

lemma py_round_near:
  assumes "\<bar>y - of_int M\<bar> < 1 / 2"
  shows "py_round y = M"
proof (cases "of_int M \<le> y")
  case True
  then have f: "\<lfloor>y\<rfloor> = M" using assms by linarith
  show ?thesis unfolding py_round_def Let_def f using assms True by simp
next
  case False
  then have f: "\<lfloor>y\<rfloor> = M - 1" using assms by linarith
  show ?thesis unfolding py_round_def Let_def f using assms False by simp
qed

lemma fl_eval:
  assumes "2 powi (e + 52) \<le> \<bar>x\<bar>" and "\<bar>x\<bar> < 2 powi (e + 53)" and "- 1074 \<le> e"
  shows "fl x = of_int (py_round (x / 2 powi e)) * 2 powi e"
proof -
  have pos: "0 < \<bar>x\<bar>"
    using assms(1) by (smt (verit) zero_less_power_int)
  have p: "2 powr (of_int k) = (2::real) powi k" for k
    by (simp add: powr_real_of_int')
  have "\<lfloor>log 2 \<bar>x\<bar>\<rfloor> = e + 52"
    using assms(1,2) pos floor_log_eq_powr_iff [of "\<bar>x\<bar>" 2 "e + 52"] p [of "e + 52"] p [of "e + 53"]
    by (simp add: add.commute)
  then show ?thesis
    using pos assms(3) by (simp add: fl_def max_def)
qed

lemma fl_near:
  assumes M: "2 ^ 52 < \<bar>M\<bar>" "\<bar>M\<bar> < 2 ^ 53" and n: "n \<le> 1074"
    and x: "\<bar>x * 2 ^ n - of_int M\<bar> < 1 / 2"
  shows "fl x = of_int M / 2 ^ n"
proof -
  define e :: int where "e = - int n"
  have pe: "(2::real) powi e = 1 / 2 ^ n"
    by (simp add: e_def power_int_minus field_simps)
  have p52: "(2::real) powi (e + 52) = 2 ^ 52 / 2 ^ n"
    by (simp add: power_int_add pe)
  have p53: "(2::real) powi (e + 53) = 2 ^ 53 / 2 ^ n"
    by (simp add: power_int_add pe)
  have "(of_int (2 ^ 52 + 1) :: real) \<le> of_int \<bar>M\<bar>" "(of_int \<bar>M\<bar> :: real) \<le> of_int (2 ^ 53 - 1)"
    unfolding of_int_le_iff using M by linarith+
  then have Mr: "(2::real) ^ 52 + 1 \<le> \<bar>of_int M\<bar>" "\<bar>of_int M :: real\<bar> \<le> 2 ^ 53 - 1"
    by simp_all
  have ax: "\<bar>\<bar>x * 2 ^ n\<bar> - \<bar>of_int M\<bar>\<bar> < 1 / 2"
    using x by linarith
  have xn: "\<bar>x * 2 ^ n\<bar> = \<bar>x\<bar> * 2 ^ n"
    by (simp add: abs_mult)
  have lo: "2 ^ 52 \<le> \<bar>x\<bar> * 2 ^ n" and hi: "\<bar>x\<bar> * 2 ^ n < 2 ^ 53"
    using ax Mr unfolding xn by linarith+
  have "fl x = of_int (py_round (x / 2 powi e)) * 2 powi e"
  proof (rule fl_eval)
    show "2 powi (e + 52) \<le> \<bar>x\<bar>" unfolding p52 using lo by (simp add: field_simps)
    show "\<bar>x\<bar> < 2 powi (e + 53)" unfolding p53 using hi by (simp add: field_simps)
    show "- 1074 \<le> e" using n by (simp add: e_def)
  qed
  moreover have "x / 2 powi e = x * 2 ^ n" by (simp add: pe)
  ultimately show ?thesis
    using py_round_near [OF x] by (simp add: pe)
qed

lemma fl_exact:
  assumes M: "2 ^ 52 \<le> \<bar>M\<bar>" "\<bar>M\<bar> < 2 ^ 53" and n: "n \<le> 1074"
  shows "fl (of_int M / 2 ^ n) = of_int M / 2 ^ n"
proof -
  define e :: int where "e = - int n"
  define x :: real where "x = of_int M / 2 ^ n"
  have pe: "(2::real) powi e = 1 / 2 ^ n"
    by (simp add: e_def power_int_minus field_simps)
  have p52: "(2::real) powi (e + 52) = 2 ^ 52 / 2 ^ n"
    by (simp add: power_int_add pe)
  have p53: "(2::real) powi (e + 53) = 2 ^ 53 / 2 ^ n"
    by (simp add: power_int_add pe)
  have "(of_int (2 ^ 52) :: real) \<le> of_int \<bar>M\<bar>" "(of_int \<bar>M\<bar> :: real) < of_int (2 ^ 53)"
    unfolding of_int_le_iff of_int_less_iff using M by linarith+
  then have Mr: "(2::real) ^ 52 \<le> \<bar>of_int M\<bar>" "\<bar>of_int M :: real\<bar> < 2 ^ 53"
    by simp_all
  have xn: "\<bar>x\<bar> = \<bar>of_int M\<bar> / 2 ^ n"
    by (simp add: x_def)
  have "fl x = of_int (py_round (x / 2 powi e)) * 2 powi e"
  proof (rule fl_eval)
    show "2 powi (e + 52) \<le> \<bar>x\<bar>" unfolding p52 xn using Mr by (simp add: divide_right_mono)
    show "\<bar>x\<bar> < 2 powi (e + 53)" unfolding p53 xn using Mr by (simp add: divide_strict_right_mono)
    show "- 1074 \<le> e" using n by (simp add: e_def)
  qed
  moreover have "x / 2 powi e = of_int M" by (simp add: pe x_def)
  moreover have "py_round (of_int M) = M" by (rule py_round_near) simp
  ultimately show ?thesis
    by (simp add: pe x_def)
qed

lemma sin_taylor_bound: "\<bar>sin x - (\<Sum>m<n. sin_coeff m * x ^ m)\<bar> \<le> \<bar>x\<bar> ^ n / fact n"
  using Maclaurin_sin_bound [of x n] by (simp add: field_simps)

lemma cos_taylor_bound: "\<bar>cos x - (\<Sum>m<n. cos_coeff m * x ^ m)\<bar> \<le> \<bar>x\<bar> ^ n / fact n"
proof -
  obtain t where t: "cos x = (\<Sum>m<n. cos_coeff m * x ^ m) + (cos (t + 1/2 * real n * pi) / fact n) * x ^ n"
    using Maclaurin_cos_expansion [of x n] by blast
  have "\<bar>cos x - (\<Sum>m<n. cos_coeff m * x ^ m)\<bar> = \<bar>cos (t + 1/2 * real n * pi)\<bar> * (\<bar>x\<bar> ^ n / fact n)"
    unfolding t by (simp add: abs_mult power_abs)
  also have "\<dots> \<le> 1 * (\<bar>x\<bar> ^ n / fact n)"
    by (rule mult_right_mono) simp_all
  finally show ?thesis by simp
qed

lemma sin_lat_bounds:
  "168249955146456648537613 / 2 ^ 80 \<le> sin (5030569068109113 / 2 ^ 55 :: real) \<and> sin (5030569068109113 / 2 ^ 55 :: real) \<le> 168249955146456648814760 / 2 ^ 80"
proof -
  define x :: real where "x = 5030569068109113 / 2 ^ 55"
  define a1 where "a1 = x"
  define a3 where "a3 = x ^ 3 / 6"
  define a5 where "a5 = x ^ 5 / 120"
  define a7 where "a7 = x ^ 7 / 5040"
  define a9 where "a9 = x ^ 9 / 362880"
  define a11 where "a11 = x ^ 11 / 39916800"
  define r where "r = \<bar>x\<bar> ^ 12 / fact 12"
  have poly: "(\<Sum>m<12. sin_coeff m * x ^ m) = a1 - a3 + a5 - a7 + a9 - a11"
    by (simp add: a1_def a3_def a5_def a7_def a9_def a11_def sin_coeff_def lessThan_nat_numeral lessThan_Suc fact_numeral)
  have rest: "r \<le> 138571 / 2 ^ 80"
    by (simp add: r_def x_def fact_numeral power_divide)
  have t1: "168797887717170600738816 / 2 ^ 80 \<le> a1" "a1 \<le> 168797887717170600738816 / 2 ^ 80"
    by (simp_all add: a1_def x_def power_divide)
  have t3: "548466954899744623584 / 2 ^ 80 \<le> a3" "a3 \<le> 548466954899744623585 / 2 ^ 80"
    by (simp_all add: a3_def x_def power_divide)
  have t5: "534632283647466480 / 2 ^ 80 \<le> a5" "a5 \<le> 534632283647466481 / 2 ^ 80"
    by (simp_all add: a5_def x_def power_divide)
  have t7: "248165038901892 / 2 ^ 80 \<le> a7" "a7 \<le> 248165038901893 / 2 ^ 80"
    by (simp_all add: a7_def x_def power_divide)
  have t9: "67195905628 / 2 ^ 80 \<le> a9" "a9 \<le> 67195905629 / 2 ^ 80"
    by (simp_all add: a9_def x_def power_divide)
  have t11: "11909261 / 2 ^ 80 \<le> a11" "a11 \<le> 11909262 / 2 ^ 80"
    by (simp_all add: a11_def x_def power_divide)
  have "\<bar>sin x - (a1 - a3 + a5 - a7 + a9 - a11)\<bar> \<le> r"
    using sin_taylor_bound [of x 12] unfolding poly r_def .
  then have v: "a1 - a3 + a5 - a7 + a9 - a11 - r \<le> sin x" "sin x \<le> a1 - a3 + a5 - a7 + a9 - a11 + r"
    unfolding abs_diff_le_iff by simp_all
  have "168797887717170600738816 / 2 ^ 80 - 548466954899744623585 / 2 ^ 80 + 534632283647466480 / 2 ^ 80 - 248165038901893 / 2 ^ 80 + 67195905628 / 2 ^ 80 - 11909262 / 2 ^ 80 - 138571 / 2 ^ 80 \<le> a1 - a3 + a5 - a7 + a9 - a11 - r"
    by (intro diff_mono add_mono order_refl rest t1 t3 t5 t7 t9 t11)
  moreover have "168797887717170600738816 / 2 ^ 80 - 548466954899744623585 / 2 ^ 80 + 534632283647466480 / 2 ^ 80 - 248165038901893 / 2 ^ 80 + 67195905628 / 2 ^ 80 - 11909262 / 2 ^ 80 - 138571 / 2 ^ 80 = (168249955146456648537613 / 2 ^ 80 :: real)"
    by simp
  ultimately have lo: "168249955146456648537613 / 2 ^ 80 \<le> sin x"
    using v(1) by (simp only: order_trans)
  have "a1 - a3 + a5 - a7 + a9 - a11 + r \<le> 168797887717170600738816 / 2 ^ 80 - 548466954899744623584 / 2 ^ 80 + 534632283647466481 / 2 ^ 80 - 248165038901892 / 2 ^ 80 + 67195905629 / 2 ^ 80 - 11909261 / 2 ^ 80 + 138571 / 2 ^ 80"
    by (intro diff_mono add_mono order_refl rest t1 t3 t5 t7 t9 t11)
  moreover have "168797887717170600738816 / 2 ^ 80 - 548466954899744623584 / 2 ^ 80 + 534632283647466481 / 2 ^ 80 - 248165038901892 / 2 ^ 80 + 67195905629 / 2 ^ 80 - 11909261 / 2 ^ 80 + 138571 / 2 ^ 80 = (168249955146456648814760 / 2 ^ 80 :: real)"
    by simp
  ultimately have hi: "sin x \<le> 168249955146456648814760 / 2 ^ 80"
    using v(2) by (simp only: order_trans)
  from lo hi have "168249955146456648537613 / 2 ^ 80 \<le> sin x \<and> sin x \<le> 168249955146456648814760 / 2 ^ 80" ..
  then show ?thesis unfolding x_def .
qed

lemma cos_lat_bounds:
  "1197160636641598838457010 / 2 ^ 80 \<le> cos (5030569068109113 / 2 ^ 55 :: real) \<and> cos (5030569068109113 / 2 ^ 55 :: real) \<le> 1197160636641598838734157 / 2 ^ 80"
proof -
  define x :: real where "x = 5030569068109113 / 2 ^ 55"
  define a2 where "a2 = x ^ 2 / 2"
  define a4 where "a4 = x ^ 4 / 24"
  define a6 where "a6 = x ^ 6 / 720"
  define a8 where "a8 = x ^ 8 / 40320"
  define a10 where "a10 = x ^ 10 / 3628800"
  define r where "r = \<bar>x\<bar> ^ 12 / fact 12"
  have poly: "(\<Sum>m<12. cos_coeff m * x ^ m) = 1 - a2 + a4 - a6 + a8 - a10"
    by (simp add: a2_def a4_def a6_def a8_def a10_def cos_coeff_def lessThan_nat_numeral lessThan_Suc fact_numeral)
  have rest: "r \<le> 138571 / 2 ^ 80"
    by (simp add: r_def x_def fact_numeral power_divide)
  have t2: "11784315644305287669154 / 2 ^ 80 \<le> a2" "a2 \<le> 11784315644305287669155 / 2 ^ 80"
    by (simp_all add: a2_def x_def power_divide)
  have t4: "19145108402775579260 / 2 ^ 80 \<le> a4" "a4 \<le> 19145108402775579261 / 2 ^ 80"
    by (simp_all add: a4_def x_def power_divide)
  have t6: "12441458182806038 / 2 ^ 80 \<le> a6" "a6 \<le> 12441458182806039 / 2 ^ 80"
    by (simp_all add: a6_def x_def power_divide)
  have t8: "4331297017177 / 2 ^ 80 \<le> a8" "a8 \<le> 4331297017178 / 2 ^ 80"
    by (simp_all add: a8_def x_def power_divide)
  have t10: "938231837 / 2 ^ 80 \<le> a10" "a10 \<le> 938231838 / 2 ^ 80"
    by (simp_all add: a10_def x_def power_divide)
  have "\<bar>cos x - (1 - a2 + a4 - a6 + a8 - a10)\<bar> \<le> r"
    using cos_taylor_bound [of x 12] unfolding poly r_def .
  then have v: "1 - a2 + a4 - a6 + a8 - a10 - r \<le> cos x" "cos x \<le> 1 - a2 + a4 - a6 + a8 - a10 + r"
    unfolding abs_diff_le_iff by simp_all
  have "1 - 11784315644305287669155 / 2 ^ 80 + 19145108402775579260 / 2 ^ 80 - 12441458182806039 / 2 ^ 80 + 4331297017177 / 2 ^ 80 - 938231838 / 2 ^ 80 - 138571 / 2 ^ 80 \<le> 1 - a2 + a4 - a6 + a8 - a10 - r"
    by (intro diff_mono add_mono order_refl rest t2 t4 t6 t8 t10)
  moreover have "1 - 11784315644305287669155 / 2 ^ 80 + 19145108402775579260 / 2 ^ 80 - 12441458182806039 / 2 ^ 80 + 4331297017177 / 2 ^ 80 - 938231838 / 2 ^ 80 - 138571 / 2 ^ 80 = (1197160636641598838457010 / 2 ^ 80 :: real)"
    by simp
  ultimately have lo: "1197160636641598838457010 / 2 ^ 80 \<le> cos x"
    using v(1) by (simp only: order_trans)
  have "1 - a2 + a4 - a6 + a8 - a10 + r \<le> 1 - 11784315644305287669154 / 2 ^ 80 + 19145108402775579261 / 2 ^ 80 - 12441458182806038 / 2 ^ 80 + 4331297017178 / 2 ^ 80 - 938231837 / 2 ^ 80 + 138571 / 2 ^ 80"
    by (intro diff_mono add_mono order_refl rest t2 t4 t6 t8 t10)
  moreover have "1 - 11784315644305287669154 / 2 ^ 80 + 19145108402775579261 / 2 ^ 80 - 12441458182806038 / 2 ^ 80 + 4331297017178 / 2 ^ 80 - 938231837 / 2 ^ 80 + 138571 / 2 ^ 80 = (1197160636641598838734157 / 2 ^ 80 :: real)"
    by simp
  ultimately have hi: "cos x \<le> 1197160636641598838734157 / 2 ^ 80"
    using v(2) by (simp only: order_trans)
  from lo hi have "1197160636641598838457010 / 2 ^ 80 \<le> cos x \<and> cos x \<le> 1197160636641598838734157 / 2 ^ 80" ..
  then show ?thesis unfolding x_def .
qed

lemma cos_half_pi_bounds:
  "-148 / 2 ^ 40 \<le> cos (7074237752028440 / 2 ^ 52 :: real) \<and> cos (7074237752028440 / 2 ^ 52 :: real) \<le> 5 / 2 ^ 40"
proof -
  define x :: real where "x = 7074237752028440 / 2 ^ 52"
  define a2 where "a2 = x ^ 2 / 2"
  define a4 where "a4 = x ^ 4 / 24"
  define a6 where "a6 = x ^ 6 / 720"
  define a8 where "a8 = x ^ 8 / 40320"
  define a10 where "a10 = x ^ 10 / 3628800"
  define a12 where "a12 = x ^ 12 / 479001600"
  define a14 where "a14 = x ^ 14 / 87178291200"
  define r where "r = \<bar>x\<bar> ^ 16 / fact 16"
  have poly: "(\<Sum>m<16. cos_coeff m * x ^ m) = 1 - a2 + a4 - a6 + a8 - a10 + a12 - a14"
    by (simp add: a2_def a4_def a6_def a8_def a10_def a12_def a14_def cos_coeff_def lessThan_nat_numeral lessThan_Suc fact_numeral)
  have rest: "r \<le> 73 / 2 ^ 40"
    by (simp add: r_def x_def fact_numeral power_divide)
  have t2: "1356468100068 / 2 ^ 40 \<le> a2" "a2 \<le> 1356468100069 / 2 ^ 40"
    by (simp_all add: a2_def x_def power_divide)
  have t4: "278912573549 / 2 ^ 40 \<le> a4" "a4 \<le> 278912573550 / 2 ^ 40"
    by (simp_all add: a4_def x_def power_divide)
  have t6: "22939639695 / 2 ^ 40 \<le> a6" "a6 \<le> 22939639696 / 2 ^ 40"
    by (simp_all add: a6_def x_def power_divide)
  have t8: "1010737361 / 2 ^ 40 \<le> a8" "a8 \<le> 1010737362 / 2 ^ 40"
    by (simp_all add: a8_def x_def power_divide)
  have t10: "27709938 / 2 ^ 40 \<le> a10" "a10 \<le> 27709939 / 2 ^ 40"
    by (simp_all add: a10_def x_def power_divide)
  have t12: "517966 / 2 ^ 40 \<le> a12" "a12 \<le> 517967 / 2 ^ 40"
    by (simp_all add: a12_def x_def power_divide)
  have t14: "7022 / 2 ^ 40 \<le> a14" "a14 \<le> 7023 / 2 ^ 40"
    by (simp_all add: a14_def x_def power_divide)
  have "\<bar>cos x - (1 - a2 + a4 - a6 + a8 - a10 + a12 - a14)\<bar> \<le> r"
    using cos_taylor_bound [of x 16] unfolding poly r_def .
  then have v: "1 - a2 + a4 - a6 + a8 - a10 + a12 - a14 - r \<le> cos x" "cos x \<le> 1 - a2 + a4 - a6 + a8 - a10 + a12 - a14 + r"
    unfolding abs_diff_le_iff by simp_all
  have "1 - 1356468100069 / 2 ^ 40 + 278912573549 / 2 ^ 40 - 22939639696 / 2 ^ 40 + 1010737361 / 2 ^ 40 - 27709939 / 2 ^ 40 + 517966 / 2 ^ 40 - 7023 / 2 ^ 40 - 73 / 2 ^ 40 \<le> 1 - a2 + a4 - a6 + a8 - a10 + a12 - a14 - r"
    by (intro diff_mono add_mono order_refl rest t2 t4 t6 t8 t10 t12 t14)
  moreover have "1 - 1356468100069 / 2 ^ 40 + 278912573549 / 2 ^ 40 - 22939639696 / 2 ^ 40 + 1010737361 / 2 ^ 40 - 27709939 / 2 ^ 40 + 517966 / 2 ^ 40 - 7023 / 2 ^ 40 - 73 / 2 ^ 40 = (-148 / 2 ^ 40 :: real)"
    by simp
  ultimately have lo: "-148 / 2 ^ 40 \<le> cos x"
    using v(1) by (simp only: order_trans)
  have "1 - a2 + a4 - a6 + a8 - a10 + a12 - a14 + r \<le> 1 - 1356468100068 / 2 ^ 40 + 278912573550 / 2 ^ 40 - 22939639695 / 2 ^ 40 + 1010737362 / 2 ^ 40 - 27709938 / 2 ^ 40 + 517967 / 2 ^ 40 - 7022 / 2 ^ 40 + 73 / 2 ^ 40"
    by (intro diff_mono add_mono order_refl rest t2 t4 t6 t8 t10 t12 t14)
  moreover have "1 - 1356468100068 / 2 ^ 40 + 278912573550 / 2 ^ 40 - 22939639695 / 2 ^ 40 + 1010737362 / 2 ^ 40 - 27709938 / 2 ^ 40 + 517967 / 2 ^ 40 - 7022 / 2 ^ 40 + 73 / 2 ^ 40 = (5 / 2 ^ 40 :: real)"
    by simp
  ultimately have hi: "cos x \<le> 5 / 2 ^ 40"
    using v(2) by (simp only: order_trans)
  from lo hi have "-148 / 2 ^ 40 \<le> cos x \<and> cos x \<le> 5 / 2 ^ 40" ..
  then show ?thesis unfolding x_def .
qed

lemma fl_zero: "fl 0 = 0"
  by (simp add: fl_def)

lemma fl_one: "fl 1 = 1"
  using fl_exact [of "2 ^ 52" 52] by simp

lemma fl_one_near:
  assumes "1 - 1 / 2 ^ 54 < x" and "x \<le> 1"
  shows "fl x = 1"
proof (cases "x = 1")
  case True
  then show ?thesis by (simp add: fl_one)
next
  case False
  have p: "(2::real) powi (- 53) = 1 / 2 ^ 53"
    by (simp add: power_int_minus field_simps)
  have "fl x = of_int (py_round (x / 2 powi (- 53))) * 2 powi (- 53)"
  proof (rule fl_eval)
    show "2 powi (- 53 + 52) \<le> \<bar>x\<bar>" using assms by (simp add: power_int_minus)
    show "\<bar>x\<bar> < 2 powi (- 53 + 53)" using assms False by simp
    show "- 1074 \<le> (- 53 :: int)" by simp
  qed
  moreover have "py_round (x / 2 powi (- 53)) = 2 ^ 53"
  proof (rule py_round_near)
    show "\<bar>x / 2 powi (- 53) - of_int (2 ^ 53)\<bar> < 1 / 2"
      using assms unfolding p by simp
  qed
  ultimately show ?thesis unfolding p by simp
qed

lemma math_pi_val: "math_pi = 7074237752028440 / 2 ^ 51"
proof -
  have "fl 3.14159265358979323846 = of_int 7074237752028440 / 2 ^ 51"
    by (rule fl_near) simp_all
  then show ?thesis by (simp add: math_pi_def)
qed

lemma deg_to_rad_val: "deg_to_rad = 5030569068109113 / 2 ^ 58"
proof -
  have "fl (7074237752028440 / 2 ^ 51 / 180) = of_int 5030569068109113 / 2 ^ 58"
    by (rule fl_near) simp_all
  then show ?thesis by (simp add: deg_to_rad_def math_pi_val)
qed

lemma radians_8: "math_radians 8 = 5030569068109113 / 2 ^ 55"
proof -
  have "fl (8 * (5030569068109113 / 2 ^ 58)) = of_int 5030569068109113 / 2 ^ 55"
    by (rule fl_near) simp_all
  then show ?thesis by (simp add: math_radians_def deg_to_rad_val)
qed

lemma radians_minus_8: "math_radians (- 8) = - (5030569068109113 / 2 ^ 55)"
proof -
  have "fl (- 8 * (5030569068109113 / 2 ^ 58)) = of_int (- 5030569068109113) / 2 ^ 55"
    by (rule fl_near) simp_all
  then show ?thesis by (simp add: math_radians_def deg_to_rad_val)
qed

lemma radians_0: "math_radians 0 = 0"
  by (simp add: math_radians_def fl_zero)

lemma radians_180: "math_radians 180 = 7074237752028440 / 2 ^ 51"
proof -
  have "fl (180 * (5030569068109113 / 2 ^ 58)) = of_int 7074237752028440 / 2 ^ 51"
    by (rule fl_near) simp_all
  then show ?thesis by (simp add: math_radians_def deg_to_rad_val)
qed

lemma fl_between:
  assumes M: "2 ^ 52 < \<bar>M\<bar>" "\<bar>M\<bar> < 2 ^ 53" and n: "n \<le> 1074"
    and v: "lo \<le> v" "v \<le> hi"
    and lo: "(of_int M - 1 / 2) / 2 ^ n < lo" and hi: "hi < (of_int M + 1 / 2) / 2 ^ n"
  shows "fl v = of_int M / 2 ^ n"
proof (rule fl_near [OF M n])
  have "(of_int M - 1 / 2) / 2 ^ n < v" "v < (of_int M + 1 / 2) / 2 ^ n"
    using v lo hi by linarith+
  then have "of_int M - 1 / 2 < v * 2 ^ n" "v * 2 ^ n < of_int M + 1 / 2"
    by (simp_all add: pos_divide_less_eq pos_less_divide_eq)
  then show "\<bar>v * 2 ^ n - of_int M\<bar> < 1 / 2"
    by linarith
qed

lemma sin_lat_val:
  "math_sin (- (5030569068109113 / 2 ^ 55)) = - (5014239404989977 / 2 ^ 55)"
proof -
  let ?x = "5030569068109113 / 2 ^ 55 :: real"
  have "- (168249955146456648814760 / 2 ^ 80) \<le> - sin ?x"
    and "- sin ?x \<le> - (168249955146456648537613 / 2 ^ 80)"
    using sin_lat_bounds by (simp_all only: neg_le_iff_le)
  then have "fl (- sin ?x) = of_int (- 5014239404989977) / 2 ^ 55"
    by (rule fl_between [rotated 3]) simp_all
  then show ?thesis
    by (simp add: math_sin_def)
qed

lemma cos_lat_val:
  "math_cos (5030569068109113 / 2 ^ 55) = 8919541810762874 / 2 ^ 53"
proof -
  let ?x = "5030569068109113 / 2 ^ 55 :: real"
  have "1197160636641598838457010 / 2 ^ 80 \<le> cos ?x"
    and "cos ?x \<le> 1197160636641598838734157 / 2 ^ 80"
    using cos_lat_bounds by (simp_all only:)
  then have "fl (cos ?x) = of_int 8919541810762874 / 2 ^ 53"
    by (rule fl_between [rotated 3]) simp_all
  then show ?thesis
    by (simp add: math_cos_def)
qed

lemma sin_half_pi_val: "math_sin (7074237752028440 / 2 ^ 52) = 1"
proof -
  let ?h = "7074237752028440 / 2 ^ 52 :: real"
  have c: "- (148 / 2 ^ 40) \<le> cos ?h" "cos ?h \<le> 5 / 2 ^ 40"
    using cos_half_pi_bounds by simp_all
  then have "\<bar>cos ?h\<bar> \<le> \<bar>148 / 2 ^ 40\<bar>"
    by simp
  then have "(cos ?h)\<^sup>2 \<le> (148 / 2 ^ 40)\<^sup>2"
    by (simp only: abs_le_square_iff)
  also have "\<dots> < 1 / 2 ^ 54"
    by (simp add: power_divide)
  finally have c2: "(cos ?h)\<^sup>2 < 1 / 2 ^ 54" .
  have "?h \<le> pi"
    using pi_ge_two by simp
  then have s0: "0 \<le> sin ?h"
    by (intro sin_ge_zero) simp_all
  have s1: "sin ?h \<le> 1"
    by (rule sin_le_one)
  have "sin ?h * sin ?h \<le> 1 * sin ?h"
    using s1 s0 by (rule mult_right_mono)
  then have "(sin ?h)\<^sup>2 \<le> sin ?h"
    by (simp add: power2_eq_square)
  moreover have "(sin ?h)\<^sup>2 = 1 - (cos ?h)\<^sup>2"
    using sin_cos_squared_add [of ?h] by linarith
  ultimately have "1 - 1 / 2 ^ 54 < sin ?h"
    using c2 by linarith
  then have "fl (sin ?h) = 1"
    using s1 by (rule fl_one_near)
  then show ?thesis
    by (simp add: math_sin_def)
qed

lemma haversine_a_double_antipodal:
  "haversine_a_double (8, 0) (- 8, 180) = 4503599627370497 / 2 ^ 52"
proof -
  have dlat: "fl (- (5030569068109113 / 2 ^ 55) - 5030569068109113 / 2 ^ 55)
                = - (5030569068109113 / 2 ^ 54)"
    using fl_near [of "- 5030569068109113" 54
        "- (5030569068109113 / 2 ^ 55) - 5030569068109113 / 2 ^ 55"]
    by simp
  have half_dlat: "fl (- (5030569068109113 / 2 ^ 54) / 2) = - (5030569068109113 / 2 ^ 55)"
    using fl_near [of "- 5030569068109113" 55 "- (5030569068109113 / 2 ^ 54) / 2"]
    by simp
  have dlon: "fl (7074237752028440 / 2 ^ 51 - 0) = 7074237752028440 / 2 ^ 51"
    using fl_near [of 7074237752028440 51 "7074237752028440 / 2 ^ 51 - 0"]
    by simp
  have half_dlon: "fl (7074237752028440 / 2 ^ 51 / 2) = 7074237752028440 / 2 ^ 52"
    using fl_near [of 7074237752028440 52 "7074237752028440 / 2 ^ 51 / 2"]
    by simp
  have sq: "fl ((- (5014239404989977 / 2 ^ 55))\<^sup>2) = 5582777975588868 / 2 ^ 58"
    using fl_near [of 5582777975588868 58 "(- (5014239404989977 / 2 ^ 55))\<^sup>2"]
    by (simp add: power_divide)
  have cc: "fl (8919541810762874 / 2 ^ 53 * (8919541810762874 / 2 ^ 53))
              = 8832737443003841 / 2 ^ 53"
    using fl_near [of 8832737443003841 53
        "8919541810762874 / 2 ^ 53 * (8919541810762874 / 2 ^ 53)"]
    by simp
  have one: "fl (1\<^sup>2) = 1"
    by (simp add: fl_one)
  have cc1: "fl (8832737443003841 / 2 ^ 53 * 1) = 8832737443003841 / 2 ^ 53"
    using fl_near [of 8832737443003841 53 "8832737443003841 / 2 ^ 53 * 1"]
    by simp
  have sum: "fl (5582777975588868 / 2 ^ 58 + 8832737443003841 / 2 ^ 53)
               = 4503599627370497 / 2 ^ 52"
    using fl_near [of 4503599627370497 52 "5582777975588868 / 2 ^ 58 + 8832737443003841 / 2 ^ 53"]
    by simp
  have cos_minus: "math_cos (- (5030569068109113 / 2 ^ 55)) = 8919541810762874 / 2 ^ 53"
    using cos_lat_val by (simp add: math_cos_def)
  show ?thesis
    unfolding haversine_a_double_def Let_def fst_conv snd_conv
      radians_8 radians_minus_8 radians_0 radians_180
      dlat half_dlat dlon half_dlon sin_lat_val cos_lat_val cos_minus sin_half_pi_val
      sq cc one cc1 sum
    by (rule refl)
qed

lemma py_round_minus: "py_round (- x) = - py_round x"
proof (cases "x = of_int \<lfloor>x\<rfloor>")
  case True
  then obtain f :: int where "x = of_int f" ..
  then show ?thesis
    by (simp add: py_round_def)
next
  case False
  define f where "f = \<lfloor>x\<rfloor>"
  define d where "d = x - of_int f"
  have d: "0 < d" "d < 1"
    using False unfolding d_def f_def by linarith+
  have "\<lceil>x\<rceil> = f + 1"
    using False by (simp add: ceiling_altdef f_def)
  then have fm: "\<lfloor>- x\<rfloor> = - f - 1"
    by (simp add: floor_minus)
  have dm: "- x - of_int (- f - 1) = 1 - d"
    by (simp add: d_def)
  have p: "py_round x = (if d < 1 / 2 then f else if 1 / 2 < d then f + 1
                         else if even f then f else f + 1)"
    by (simp add: py_round_def Let_def f_def d_def)
  have m: "py_round (- x) = (if 1 - d < 1 / 2 then - f - 1 else if 1 / 2 < 1 - d then - f
                             else if even (- f - 1) then - f - 1 else - f)"
    unfolding py_round_def Let_def fm dm by simp
  show ?thesis
    unfolding p m using d by auto
qed

lemma fl_minus: "fl (- x) = - fl x"
  by (simp add: fl_def Let_def py_round_minus)

lemma math_sin_minus: "math_sin (- x) = - math_sin x"
  by (simp add: math_sin_def fl_minus)

lemma math_cos_minus: "math_cos (- x) = math_cos x"
  by (simp add: math_cos_def)

lemma fl_diff_swap: "fl (b - a) = - fl (a - b)"
  using fl_minus [of "a - b"] by simp

lemma haversine_a_double_sym: "haversine_a_double p q = haversine_a_double q p"
proof -
  obtain x1 y1 x2 y2 where pq: "p = (x1, y1)" "q = (x2, y2)"
    by (cases p, cases q) blast
  show ?thesis
    unfolding pq haversine_a_double_def Let_def fst_conv snd_conv
      fl_diff_swap [of "math_radians x1" "math_radians x2"]
      fl_diff_swap [of "math_radians y1" "math_radians y2"]
    by (simp add: fl_minus math_sin_minus mult.commute)
qed

lemma haversine_distance_double_sym:
  "haversine_distance_double p q = haversine_distance_double q p"
  unfolding haversine_distance_double_def haversine_a_double_sym [of p q] ..

lemma haversine_a_double_same: "haversine_a_double p p = 0"
  by (simp add: haversine_a_double_def Let_def fl_zero math_sin_def)

lemma haversine_distance_double_same: "haversine_distance_double p p = Inr 0"
  by (simp add: haversine_distance_double_def Let_def haversine_a_double_same
      math_sqrt_def math_atan2_def atan2_def fl_zero fl_one)


subsection \<open>Regular expressions\<close>

inductive_cases matches_ZeroE: "matches Zero s"
inductive_cases matches_OneE: "matches One s"
inductive_cases matches_CharsE: "matches (Chars cs) s"
inductive_cases matches_AltE: "matches (Alt r q) s"
inductive_cases matches_SeqE: "matches (Seq r q) s"

text \<open>The matcher accepts only words of the expression's language.\<close>

lemma nullable_matches: "nullable r \<Longrightarrow> matches r []"
proof (induction r)
  case (Seq r q)
  then have "matches (Seq r q) ([] @ [])" by (intro m_Seq) simp_all
  then show ?case by simp
qed (auto intro: matches.intros)

lemma seqE:
  assumes "matches (Seq A B) s"
  obtains u v where "s = u @ v" "matches A u" "matches B v"
  using assms by (rule matches_SeqE)

lemma charsE:
  assumes "matches (Chars cs) s"
  obtains c where "s = [c]" "c \<in> set cs"
  using assms by (rule matches_CharsE) simp

lemma deriv_matches: "matches (deriv c r) s \<Longrightarrow> matches r (c # s)"
proof (induction r arbitrary: s)
  case Zero
  then show ?case by (auto elim: matches_ZeroE)
next
  case One
  then show ?case by (auto elim: matches_ZeroE)
next
  case (Chars cs)
  then show ?case by (auto split: if_splits intro: m_Chars elim: matches_ZeroE matches_OneE)
next
  case (Alt r q)
  then show ?case by (auto intro: m_AltL m_AltR elim: matches_AltE)
next
  case (Seq r q)
  have left: "matches (Seq r q) (c # s)" if "matches (Seq (deriv c r) q) s"
  proof -
    from that obtain u v where "s = u @ v" "matches (deriv c r) u" "matches q v"
      by (rule seqE)
    with Seq.IH(1) have "matches (Seq r q) ((c # u) @ v)" by (intro m_Seq) simp_all
    with \<open>s = u @ v\<close> show ?thesis by simp
  qed
  have right: "matches (Seq r q) (c # s)" if "nullable r" "matches (deriv c q) s"
  proof -
    from that Seq.IH(2) have "matches (Seq r q) ([] @ c # s)"
      by (intro m_Seq nullable_matches) simp_all
    then show ?thesis by simp
  qed
  show ?case
  proof (cases "nullable r")
    case True
    with Seq.prems have "matches (Alt (Seq (deriv c r) q) (deriv c q)) s" by simp
    then show ?thesis using left right [OF True] by (rule matches_AltE) simp_all
  next
    case False
    with Seq.prems left show ?thesis by simp
  qed
next
  case (Star r)
  then have "matches (Seq (deriv c r) (Star r)) s" by simp
  then obtain u v where "s = u @ v" "matches (deriv c r) u" "matches (Star r) v"
    by (rule seqE)
  with Star.IH have "matches (Star r) ((c # u) @ v)" by (intro m_StarStep) simp_all
  with \<open>s = u @ v\<close> show ?case by simp
qed

lemma fullmatch_matches: "fullmatch r s \<Longrightarrow> matches r s"
  by (induction r s rule: fullmatch.induct) (simp_all add: nullable_matches deriv_matches)

text \<open>What the pieces of the pattern match.\<close>

lemma star_chars:
  "matches r s \<Longrightarrow> r = Star (Chars cs) \<Longrightarrow> \<forall>c \<in> set s. c \<in> set cs"
proof (induction rule: matches.induct)
  case (m_StarStep r u v)
  then have "matches (Chars cs) u" by simp
  then obtain c where "u = [c]" "c \<in> set cs" by (rule charsE)
  with m_StarStep show ?case by simp
qed simp_all

lemma plusE:
  assumes "matches (Plus (Chars cs)) s"
  obtains "s \<noteq> []" "\<forall>c \<in> set s. c \<in> set cs"
proof -
  from assms have "matches (Seq (Chars cs) (Star (Chars cs))) s" by (simp only: Plus_def)
  then obtain u v where s: "s = u @ v" and u: "matches (Chars cs) u"
    and v: "matches (Star (Chars cs)) v"
    by (rule seqE)
  from u obtain c where c: "u = [c]" "c \<in> set cs" by (rule charsE)
  from star_chars [OF v refl] s c have "s \<noteq> []" "\<forall>c \<in> set s. c \<in> set cs" by simp_all
  then show ?thesis by (rule that)
qed

lemma optE:
  assumes "matches (Opt r) s"
  obtains "s = []" | "matches r s"
proof -
  from assms have "matches (Alt r One) s" by (simp only: Opt_def)
  then show ?thesis
  proof (rule matches_AltE)
    assume "matches r s"
    then show ?thesis by (rule that(2))
  next
    assume "matches One s"
    then have "s = []" by (rule matches_OneE)
    then show ?thesis by (rule that(1))
  qed
qed

lemma litE:
  assumes "matches (Lit c) s"
  obtains "s = [c]"
proof -
  from assms have "matches (Chars [c]) s" by (simp only: Lit_def)
  then obtain d where "s = [d]" "d \<in> set [c]" by (rule charsE)
  then have "s = [c]" by simp
  then show ?thesis by (rule that)
qed

lemma fraction_matches:
  assumes "matches (fraction_re (Chars cs)) s"
  shows "s = [] \<or> (\<exists>fr. s = CHR ''.'' # fr \<and> fr \<noteq> [] \<and> (\<forall>c \<in> set fr. c \<in> set cs))"
proof -
  from assms have "matches (Opt (Seq (Lit CHR ''.'') (Plus (Chars cs)))) s"
    by (simp only: fraction_re_def)
  then show ?thesis
  proof (rule optE)
    assume "matches (Seq (Lit CHR ''.'') (Plus (Chars cs))) s"
    then obtain u fr where s: "s = u @ fr" and u: "matches (Lit CHR ''.'') u"
      and fr: "matches (Plus (Chars cs)) fr"
      by (rule seqE)
    from u have u': "u = [CHR ''.'']" by (rule litE)
    from fr have "fr \<noteq> [] \<and> (\<forall>c \<in> set fr. c \<in> set cs)" by (rule plusE) (rule conjI)
    with s u' show ?thesis by simp
  qed simp
qed

lemma sign_matches: "matches sign_re s \<Longrightarrow> is_sign s"
proof -
  assume "matches sign_re s"
  then have "matches (Opt (Chars ''-+'')) s" by (simp only: sign_re_def)
  then show ?thesis
  proof (rule optE)
    assume "matches (Chars ''-+'') s"
    then obtain c where "s = [c]" "c \<in> set ''-+''" by (rule charsE)
    then show ?thesis by (auto simp: is_sign_def)
  qed (simp add: is_sign_def)
qed

subsection \<open>Decimal numerals and \<^verbatim>\<open>float\<close>\<close>

lemma nat_of_digits_Nil [simp]: "nat_of_digits [] = 0"
  by (simp add: nat_of_digits_def)

lemma nat_of_digits_snoc [simp]: "nat_of_digits (ds @ [d]) = 10 * nat_of_digits ds + digit_val d"
  by (simp add: nat_of_digits_def)

lemma digit_val_le: "c \<in> set digits \<Longrightarrow> digit_val c \<le> 9"
  by (auto simp: digits_def digit_val_def)

lemma nat_of_digits_less: "\<forall>c \<in> set ds. c \<in> set digits \<Longrightarrow> nat_of_digits ds < 10 ^ length ds"
proof (induction ds rule: rev_induct)
  case Nil
  then show ?case by simp
next
  case (snoc d ds)
  then have "nat_of_digits ds < 10 ^ length ds" "digit_val d \<le> 9"
    by (simp_all add: digit_val_le)
  then show ?case by simp
qed

lemma nat_of_digits_zeros: "\<forall>c \<in> set ds. c = CHR ''0'' \<Longrightarrow> nat_of_digits ds = 0"
  by (induction ds rule: rev_induct) (simp_all add: digit_val_def)

lemma dot_not_digit: "CHR ''.'' \<notin> set digits"
  by (simp add: digits_def)

lemma unsigned_float_digits:
  assumes "is_digits ip"
  shows "unsigned_float ip = Some (real (nat_of_digits ip))"
proof -
  from assms have tw: "takeWhile (\<lambda>c. c \<in> set digits) ip = ip"
    and dw: "dropWhile (\<lambda>c. c \<in> set digits) ip = []"
    by (simp_all add: is_digits_def)
  from assms show ?thesis by (simp add: unsigned_float_def tw dw is_digits_def)
qed

lemma unsigned_float_point:
  assumes "is_digits ip" and "\<forall>c \<in> set fr. c \<in> set digits"
  shows "unsigned_float (ip @ CHR ''.'' # fr)
           = Some (real (nat_of_digits ip) + real (nat_of_digits fr) / 10 ^ length fr)"
proof -
  from assms(1) have tw: "takeWhile (\<lambda>c. c \<in> set digits) (ip @ CHR ''.'' # fr) = ip"
    and dw: "dropWhile (\<lambda>c. c \<in> set digits) (ip @ CHR ''.'' # fr) = CHR ''.'' # fr"
    by (simp_all add: is_digits_def dot_not_digit)
  from assms show ?thesis
    by (simp add: unsigned_float_def tw dw is_digits_def list_all_iff)
qed

lemma decimal_upto_float:
  assumes "decimal_upto n s"
  shows "\<exists>x. unsigned_float s = Some x \<and> 0 \<le> x \<and> x \<le> real n"
proof -
  from assms obtain ip fr where d: "is_digits ip" "\<forall>c \<in> set fr. c \<in> set digits"
    and s: "s = ip @ (if fr = [] then [] else CHR ''.'' # fr)"
    and b: "nat_of_digits ip < n \<or> (nat_of_digits ip = n \<and> (\<forall>c \<in> set fr. c = CHR ''0''))"
    unfolding decimal_upto_def by blast
  define x where "x = real (nat_of_digits ip) + real (nat_of_digits fr) / 10 ^ length fr"
  have val: "unsigned_float s = Some x"
  proof (cases "fr = []")
    case True
    with s d show ?thesis by (simp add: unsigned_float_digits x_def)
  next
    case False
    with s d show ?thesis by (simp add: unsigned_float_point x_def)
  qed
  have frac: "0 \<le> real (nat_of_digits fr) / 10 ^ length fr"
    "real (nat_of_digits fr) / 10 ^ length fr < 1"
    using nat_of_digits_less [OF d(2)] by simp_all
  from b have "x \<le> real n"
  proof
    assume "nat_of_digits ip < n"
    then have "real (nat_of_digits ip) + 1 \<le> real n" by linarith
    with frac show ?thesis unfolding x_def by linarith
  next
    assume "nat_of_digits ip = n \<and> (\<forall>c \<in> set fr. c = CHR ''0'')"
    then show ?thesis by (simp add: x_def nat_of_digits_zeros)
  qed
  moreover from frac have "0 \<le> x" unfolding x_def by linarith
  ultimately show ?thesis using val by blast
qed


lemma nat_of_digits_1 [simp]: "nat_of_digits [d] = digit_val d"
  by (simp add: nat_of_digits_def)

lemma nat_of_digits_2 [simp]: "nat_of_digits [c, d] = 10 * digit_val c + digit_val d"
  by (simp add: nat_of_digits_def)

lemma nat_of_digits_3 [simp]:
  "nat_of_digits [b, c, d] = 100 * digit_val b + 10 * digit_val c + digit_val d"
  by (simp add: nat_of_digits_def)

lemma decimal_uptoI:
  assumes "is_digits ip"
    and "f = [] \<or> (\<exists>fr. f = CHR ''.'' # fr \<and> fr \<noteq> [] \<and> (\<forall>c \<in> set fr. c \<in> set cs))"
    and "set cs \<subseteq> set digits"
    and "nat_of_digits ip < n \<or> (nat_of_digits ip = n \<and> cs = ''0'')"
  shows "decimal_upto n (ip @ f)"
proof -
  from assms(2) obtain fr where fr: "f = (if fr = [] then [] else CHR ''.'' # fr)"
    "\<forall>c \<in> set fr. c \<in> set cs"
  proof
    assume "f = []"
    then have "f = (if [] = [] then [] else CHR ''.'' # [])" "\<forall>c \<in> set []. c \<in> set cs"
      by simp_all
    then show ?thesis by (rule that)
  next
    assume "\<exists>fr. f = CHR ''.'' # fr \<and> fr \<noteq> [] \<and> (\<forall>c \<in> set fr. c \<in> set cs)"
    then obtain fr where "f = CHR ''.'' # fr" "fr \<noteq> []" "\<forall>c \<in> set fr. c \<in> set cs" by blast
    then have "f = (if fr = [] then [] else CHR ''.'' # fr)" "\<forall>c \<in> set fr. c \<in> set cs"
      by simp_all
    then show ?thesis by (rule that)
  qed
  with assms(3) have "\<forall>c \<in> set fr. c \<in> set digits" by auto
  moreover from assms(4) fr(2)
  have "nat_of_digits ip < n \<or> (nat_of_digits ip = n \<and> (\<forall>c \<in> set fr. c = CHR ''0''))"
    by auto
  ultimately show ?thesis
    unfolding decimal_upto_def using assms(1) fr(1) by blast
qed

lemma digits_subset: "set digits \<subseteq> set digits" "set ''0'' \<subseteq> set digits"
  by (simp_all add: digits_def)

lemma small_digit: "c \<in> set ''12345678'' \<Longrightarrow> digit_val c \<le> 8 \<and> c \<in> set digits"
  by (auto simp: digits_def digit_val_def)

lemma nonzero_digit: "c \<in> set ''123456789'' \<Longrightarrow> digit_val c \<le> 9 \<and> c \<in> set digits"
  by (auto simp: digits_def digit_val_def)

lemma octal_digit: "c \<in> set ''01234567'' \<Longrightarrow> digit_val c \<le> 7 \<and> c \<in> set digits"
  by (auto simp: digits_def digit_val_def)

lemma special_digits:
  "digit_val CHR ''0'' = 0" "digit_val CHR ''1'' = 1" "digit_val CHR ''8'' = 8"
  "digit_val CHR ''9'' = 9"
  "CHR ''0'' \<in> set digits" "CHR ''1'' \<in> set digits" "CHR ''8'' \<in> set digits"
  "CHR ''9'' \<in> set digits"
  by (simp_all add: digit_val_def digits_def)

lemma two_digits:
  assumes "o1 = [] \<or> (\<exists>c. o1 = [c] \<and> c \<in> set digits \<and> digit_val c \<le> k)" and "d \<in> set digits"
  shows "is_digits (o1 @ [d]) \<and> nat_of_digits (o1 @ [d]) < 10 * k + 10"
  using assms digit_val_le [OF assms(2)] by (auto simp: is_digits_def)

lemma opt_digit:
  assumes "matches (Opt (Chars cs)) o1" and "\<And>c. c \<in> set cs \<Longrightarrow> digit_val c \<le> k \<and> c \<in> set digits"
  shows "o1 = [] \<or> (\<exists>c. o1 = [c] \<and> c \<in> set digits \<and> digit_val c \<le> k)"
  using assms(1)
proof (rule optE)
  assume "matches (Chars cs) o1"
  then obtain c where "o1 = [c]" "c \<in> set cs" by (rule charsE)
  with assms(2) [of c] show ?thesis by simp
qed simp

lemma short_number:
  assumes o1: "matches (Opt (Chars cs)) o1"
    and cs: "\<And>c. c \<in> set cs \<Longrightarrow> digit_val c \<le> k \<and> c \<in> set digits"
    and dd: "matches (Chars digits) dd"
    and f: "matches (fraction_re (Chars digits)) f"
    and n: "10 * k + 10 \<le> n"
  shows "decimal_upto n (o1 @ dd @ f)"
proof -
  from dd obtain d where d: "dd = [d]" "d \<in> set digits" by (rule charsE)
  from two_digits [OF opt_digit [OF o1 cs] d(2)] n
  have ip: "is_digits (o1 @ [d])" "nat_of_digits (o1 @ [d]) < n"
    by simp_all
  have "decimal_upto n ((o1 @ [d]) @ f)"
  proof (rule decimal_uptoI [where cs = digits])
    show "is_digits (o1 @ [d])" by (rule ip(1))
    show "f = [] \<or> (\<exists>fr. f = CHR ''.'' # fr \<and> fr \<noteq> [] \<and> (\<forall>c \<in> set fr. c \<in> set digits))"
      by (rule fraction_matches [OF f])
    show "set digits \<subseteq> set digits" by (rule digits_subset(1))
    show "nat_of_digits (o1 @ [d]) < n \<or> nat_of_digits (o1 @ [d]) = n \<and> digits = ''0''"
      using ip(2) by (rule disjI1)
  qed
  with d(1) show ?thesis by simp
qed

lemma exact_number:
  assumes ip: "is_digits ip" "nat_of_digits ip = n"
    and f: "matches (fraction_re (Lit CHR ''0'')) f"
  shows "decimal_upto n (ip @ f)"
proof -
  from f have f': "matches (fraction_re (Chars ''0'')) f" by (simp only: Lit_def)
  show ?thesis
  proof (rule decimal_uptoI [where cs = "''0''"])
    show "is_digits ip" by (rule ip(1))
    show "f = [] \<or> (\<exists>fr. f = CHR ''.'' # fr \<and> fr \<noteq> [] \<and> (\<forall>c \<in> set fr. c \<in> set ''0''))"
      by (rule fraction_matches [OF f'])
    show "set ''0'' \<subseteq> set digits" by (rule digits_subset(2))
    show "nat_of_digits ip < n \<or> nat_of_digits ip = n \<and> ''0'' = ''0''"
      using ip(2) by simp
  qed
qed

lemma lat_matches:
  assumes "matches lat_re s"
  shows "decimal_upto 90 s"
  using assms unfolding lat_re_def
proof (rule matches_AltE)
  assume "matches (Seq (Opt (Chars ''12345678'')) (Seq (Chars digits) (fraction_re (Chars digits)))) s"
  then obtain o1 t where st: "s = o1 @ t"
    and o1: "matches (Opt (Chars ''12345678'')) o1"
    and t: "matches (Seq (Chars digits) (fraction_re (Chars digits))) t"
    by (rule seqE)
  from t obtain dd f where tf: "t = dd @ f"
    and dd: "matches (Chars digits) dd" and f: "matches (fraction_re (Chars digits)) f"
    by (rule seqE)
  have "decimal_upto 90 (o1 @ dd @ f)"
    by (rule short_number [OF o1 small_digit dd f]) simp_all
  with st tf show ?thesis by simp
next
  assume "matches (Seq (Lit CHR ''9'') (Seq (Lit CHR ''0'') (fraction_re (Lit CHR ''0'')))) s"
  then obtain a t where st: "s = a @ t" and a: "matches (Lit CHR ''9'') a"
    and t: "matches (Seq (Lit CHR ''0'') (fraction_re (Lit CHR ''0''))) t"
    by (rule seqE)
  from t obtain b f where tf: "t = b @ f" and b: "matches (Lit CHR ''0'') b"
    and f: "matches (fraction_re (Lit CHR ''0'')) f"
    by (rule seqE)
  from a have a': "a = ''9''" by (rule litE)
  from b have b': "b = ''0''" by (rule litE)
  have "decimal_upto 90 (''90'' @ f)"
    by (rule exact_number [OF _ _ f]) (simp_all add: is_digits_def special_digits)
  with st tf a' b' show ?thesis by simp
qed

lemma lng_matches:
  assumes "matches lng_re s"
  shows "decimal_upto 180 s"
  using assms unfolding lng_re_def
proof (rule matches_AltE)
  assume "matches (Seq (Lit CHR ''1'') (Seq (Lit CHR ''8'') (Seq (Lit CHR ''0'')
            (fraction_re (Lit CHR ''0''))))) s"
  then obtain a t where st: "s = a @ t" and a: "matches (Lit CHR ''1'') a"
    and t: "matches (Seq (Lit CHR ''8'') (Seq (Lit CHR ''0'') (fraction_re (Lit CHR ''0'')))) t"
    by (rule seqE)
  from t obtain b t' where tt: "t = b @ t'" and b: "matches (Lit CHR ''8'') b"
    and t': "matches (Seq (Lit CHR ''0'') (fraction_re (Lit CHR ''0''))) t'"
    by (rule seqE)
  from t' obtain c f where tf: "t' = c @ f" and c: "matches (Lit CHR ''0'') c"
    and f: "matches (fraction_re (Lit CHR ''0'')) f"
    by (rule seqE)
  from a have a': "a = ''1''" by (rule litE)
  from b have b': "b = ''8''" by (rule litE)
  from c have c': "c = ''0''" by (rule litE)
  have "decimal_upto 180 (''180'' @ f)"
    by (rule exact_number [OF _ _ f]) (simp_all add: is_digits_def special_digits)
  with st tt tf a' b' c' show ?thesis by simp
next
  assume "matches (Seq (Alt (Seq (Lit CHR ''1'') (Seq (Chars ''01234567'') (Chars digits)))
                   (Seq (Opt (Chars ''123456789'')) (Chars digits)))
              (fraction_re (Chars digits))) s"
  then obtain ip f where sf: "s = ip @ f"
    and ip: "matches (Alt (Seq (Lit CHR ''1'') (Seq (Chars ''01234567'') (Chars digits)))
                   (Seq (Opt (Chars ''123456789'')) (Chars digits))) ip"
    and f: "matches (fraction_re (Chars digits)) f"
    by (rule seqE)
  from ip show ?thesis
  proof (rule matches_AltE)
    assume "matches (Seq (Lit CHR ''1'') (Seq (Chars ''01234567'') (Chars digits))) ip"
    then obtain a t where it: "ip = a @ t" and a: "matches (Lit CHR ''1'') a"
      and t: "matches (Seq (Chars ''01234567'') (Chars digits)) t"
      by (rule seqE)
    from t obtain b c where tb: "t = b @ c" and b: "matches (Chars ''01234567'') b"
      and c: "matches (Chars digits) c"
      by (rule seqE)
    from a have a': "a = ''1''" by (rule litE)
    from b obtain x where x: "b = [x]" "x \<in> set ''01234567''" by (rule charsE)
    from c obtain y where y: "c = [y]" "y \<in> set digits" by (rule charsE)
    from octal_digit [OF x(2)] digit_val_le [OF y(2)] y(2)
    have three: "is_digits [CHR ''1'', x, y]" "nat_of_digits [CHR ''1'', x, y] < 180"
      by (simp_all add: is_digits_def special_digits)
    have "decimal_upto 180 ([CHR ''1'', x, y] @ f)"
    proof (rule decimal_uptoI [where cs = digits])
      show "is_digits [CHR ''1'', x, y]" by (rule three(1))
      show "f = [] \<or> (\<exists>fr. f = CHR ''.'' # fr \<and> fr \<noteq> [] \<and> (\<forall>c \<in> set fr. c \<in> set digits))"
        by (rule fraction_matches [OF f])
      show "set digits \<subseteq> set digits" by (rule digits_subset(1))
      show "nat_of_digits [CHR ''1'', x, y] < 180
              \<or> nat_of_digits [CHR ''1'', x, y] = 180 \<and> digits = ''0''"
        using three(2) by (rule disjI1)
    qed
    with sf it tb a' x(1) y(1) show ?thesis by simp
  next
    assume "matches (Seq (Opt (Chars ''123456789'')) (Chars digits)) ip"
    then obtain o1 dd where io: "ip = o1 @ dd" and o1: "matches (Opt (Chars ''123456789'')) o1"
      and dd: "matches (Chars digits) dd"
      by (rule seqE)
    have "decimal_upto 180 (o1 @ dd @ f)"
      by (rule short_number [OF o1 nonzero_digit dd f]) simp_all
    with sf io show ?thesis by simp
  qed
qed

subsection \<open>Strings accepted by \<^verbatim>\<open>is_coordinate\<close>\<close>

lemma pattern_matches:
  assumes "matches pattern s"
  obtains sg1 a ws sg2 b where "s = sg1 @ a @ CHR '','' # ws @ sg2 @ b"
    "is_sign sg1" "decimal_upto 90 a" "\<forall>c \<in> set ws. c \<in> set whitespace"
    "is_sign sg2" "decimal_upto 180 b"
proof -
  from assms have "matches (Seq sign_re (Seq lat_re (Seq (Lit CHR '','')
       (Seq (Star (Chars whitespace)) (Seq sign_re lng_re))))) s"
    by (simp only: pattern_def)
  then obtain sg1 t1 where s1: "s = sg1 @ t1" and sg1: "matches sign_re sg1"
    and t1: "matches (Seq lat_re (Seq (Lit CHR '','')
       (Seq (Star (Chars whitespace)) (Seq sign_re lng_re)))) t1"
    by (rule seqE)
  from t1 obtain a t2 where s2: "t1 = a @ t2" and a: "matches lat_re a"
    and t2: "matches (Seq (Lit CHR '','') (Seq (Star (Chars whitespace)) (Seq sign_re lng_re))) t2"
    by (rule seqE)
  from t2 obtain cm t3 where s3: "t2 = cm @ t3" and cm: "matches (Lit CHR '','') cm"
    and t3: "matches (Seq (Star (Chars whitespace)) (Seq sign_re lng_re)) t3"
    by (rule seqE)
  from t3 obtain ws t4 where s4: "t3 = ws @ t4" and ws: "matches (Star (Chars whitespace)) ws"
    and t4: "matches (Seq sign_re lng_re) t4"
    by (rule seqE)
  from t4 obtain sg2 b where s5: "t4 = sg2 @ b" and sg2: "matches sign_re sg2"
    and b: "matches lng_re b"
    by (rule seqE)
  from cm have cm': "cm = [CHR '','']" by (rule litE)
  have eq: "s = sg1 @ a @ CHR '','' # ws @ sg2 @ b"
    using s1 s2 s3 s4 s5 cm' by simp
  have sp: "\<forall>c \<in> set ws. c \<in> set whitespace" by (rule star_chars [OF ws refl])
  show ?thesis
    by (rule that [OF eq sign_matches [OF sg1] lat_matches [OF a] sp sign_matches [OF sg2]
          lng_matches [OF b]])
qed

lemma py_split_nonempty: "py_split sep s \<noteq> []"
  by (induction s) (simp_all split: list.splits)

lemma py_split_no_sep: "sep \<notin> set s \<Longrightarrow> py_split sep s = [s]"
  by (induction s) auto

lemma py_split_append: "sep \<notin> set u \<Longrightarrow> py_split sep (u @ sep # v) = u # py_split sep v"
  by (induction u) (auto split: list.splits)

lemma comma_not_digit: "c \<in> set digits \<Longrightarrow> c \<noteq> CHR '',''"
  by (auto simp: digits_def)

lemma space_not_digit: "c \<in> set digits \<Longrightarrow> c \<notin> set float_space"
  by (auto simp: digits_def float_space_def)

lemma stripped_space:
  "c \<in> set whitespace \<Longrightarrow> c \<notin> set separators \<Longrightarrow> c \<in> set float_space"
  by (auto simp: whitespace_def separators_def float_space_def)

lemma sign_not_digit: "c \<in> set digits \<Longrightarrow> c \<noteq> CHR ''-'' \<and> c \<noteq> CHR ''+''"
  by (auto simp: digits_def)

lemma comma_not_space: "CHR '','' \<notin> set whitespace"
  by (simp add: whitespace_def)

lemma decimal_chars:
  assumes "decimal_upto n a"
  shows "a \<noteq> []" "hd a \<in> set digits" "last a \<in> set digits" "CHR '','' \<notin> set a"
proof -
  from assms obtain ip fr where ip: "is_digits ip" and fr: "\<forall>c \<in> set fr. c \<in> set digits"
    and a: "a = ip @ (if fr = [] then [] else CHR ''.'' # fr)"
    unfolding decimal_upto_def by blast
  from ip have ne: "ip \<noteq> []" and all: "\<forall>c \<in> set ip. c \<in> set digits"
    by (simp_all add: is_digits_def)
  from ne a show "a \<noteq> []" by simp
  from ne all a show "hd a \<in> set digits" by (cases ip) simp_all
  show "last a \<in> set digits"
  proof (cases "fr = []")
    case True
    with a ne all show ?thesis by simp
  next
    case False
    with a have "last a = last fr" by simp
    with False fr show ?thesis by simp
  qed
  from a all fr show "CHR '','' \<notin> set a"
    by (auto dest: comma_not_digit split: if_splits)
qed

lemma sign_chars:
  assumes "is_sign sg"
  shows "CHR '','' \<notin> set sg" "\<forall>c \<in> set sg. c \<notin> set float_space"
  using assms by (auto simp: is_sign_def float_space_def)

lemma strip_core:
  assumes "is_space ws" "is_space nl" "t \<noteq> []" "hd t \<notin> set float_space" "last t \<notin> set float_space"
  shows "strip (ws @ t @ nl) = t"
proof -
  from assms(3) obtain c u where t: "t = c # u" by (cases t) simp_all
  with assms(4) have c: "c \<notin> set float_space" by simp
  from assms(1) have "dropWhile (\<lambda>c. c \<in> set float_space) (ws @ t @ nl) = t @ nl"
    unfolding t using c by (simp add: is_space_def dropWhile_append)
  moreover have "dropWhile (\<lambda>c. c \<in> set float_space) (rev (t @ nl)) = rev t"
  proof -
    from assms(3) obtain v d where t': "t = v @ [d]" by (cases t rule: rev_cases) simp_all
    with assms(5) have "d \<notin> set float_space" by simp
    with assms(2) show ?thesis unfolding t' by (simp add: is_space_def dropWhile_append)
  qed
  ultimately show ?thesis by (simp add: strip_def)
qed

lemma py_float_signed:
  assumes sg: "is_sign sg" and a: "decimal_upto n a" and ws: "is_space ws" and nl: "is_space nl"
  shows "\<exists>x. py_float (ws @ sg @ a @ nl) = Some x \<and> \<bar>x\<bar> \<le> real n"
proof -
  from decimal_upto_float [OF a] obtain x where x: "unsigned_float a = Some x" "0 \<le> x" "x \<le> real n"
    by blast
  note ac = decimal_chars [OF a]
  from ac(1) obtain c u where cu: "a = c # u" by (cases a) simp_all
  with ac(2) have c: "c \<in> set digits" by simp
  have ne: "sg @ a \<noteq> []" using ac(1) by simp
  have h: "hd (sg @ a) \<notin> set float_space"
    using sg ac(1,2) by (cases sg) (auto simp: is_sign_def float_space_def dest: space_not_digit)
  have l: "last (sg @ a) \<notin> set float_space"
    using ac(1,3) by (simp add: space_not_digit)
  have st: "strip (ws @ sg @ a @ nl) = sg @ a"
    using strip_core [OF ws nl ne h l] by simp
  from sg consider "sg = []" | "sg = ''-''" | "sg = ''+''" by (auto simp: is_sign_def)
  then show ?thesis
  proof cases
    case 1
    with st cu have "py_float (ws @ sg @ a @ nl) = unsigned_float a"
      using sign_not_digit [OF c] by (simp add: py_float_def)
    with x show ?thesis by simp
  next
    case 2
    with st have "py_float (ws @ sg @ a @ nl) = map_option uminus (unsigned_float a)"
      by (simp add: py_float_def)
    with x show ?thesis by simp
  next
    case 3
    with st have "py_float (ws @ sg @ a @ nl) = unsigned_float a"
      by (simp add: py_float_def)
    with x show ?thesis by simp
  qed
qed

lemma parse_pattern:
  assumes m: "matches pattern t" and clean: "\<forall>c \<in> set t. c \<notin> set separators"
    and nl: "is_space nl" "CHR '','' \<notin> set nl"
  shows "\<exists>lat lng. parse_coordinate (t @ nl) = Inr (lat, lng)
           \<and> \<bar>lat\<bar> \<le> 90 \<and> \<bar>lng\<bar> \<le> 180"
proof -
  from m obtain sg1 a ws sg2 b where t: "t = sg1 @ a @ CHR '','' # ws @ sg2 @ b"
    and sg1: "is_sign sg1" and a: "decimal_upto 90 a"
    and white: "\<forall>c \<in> set ws. c \<in> set whitespace"
    and sg2: "is_sign sg2" and b: "decimal_upto 180 b"
    by (rule pattern_matches)
  from white clean have ws: "is_space ws"
    unfolding is_space_def t by (auto intro: stripped_space)
  have left: "CHR '','' \<notin> set (sg1 @ a)"
    using sign_chars(1) [OF sg1] decimal_chars(4) [OF a] by simp
  have right: "CHR '','' \<notin> set (ws @ sg2 @ b @ nl)"
    using white sign_chars(1) [OF sg2] decimal_chars(4) [OF b] nl(2) comma_not_space
    by auto
  have "py_split CHR '','' (t @ nl) = [sg1 @ a, ws @ sg2 @ b @ nl]"
    using py_split_append [OF left, of "ws @ sg2 @ b @ nl"] py_split_no_sep [OF right]
    by (simp add: t)
  moreover from py_float_signed [OF sg1 a, of "[]" "[]"]
  obtain lat where "py_float (sg1 @ a) = Some lat" "\<bar>lat\<bar> \<le> 90"
    by (auto simp: is_space_def)
  moreover from py_float_signed [OF sg2 b ws nl(1)]
  obtain lng where "py_float (ws @ sg2 @ b @ nl) = Some lng" "\<bar>lng\<bar> \<le> 180"
    by auto
  ultimately show ?thesis by (simp add: parse_coordinate_def)
qed

lemma is_coordinate_parse:
  assumes "is_coordinate s" and clean: "\<forall>c \<in> set s. c \<notin> set separators"
  shows "\<exists>lat lng. parse_coordinate s = Inr (lat, lng) \<and> \<bar>lat\<bar> \<le> 90 \<and> \<bar>lng\<bar> \<le> 180"
proof -
  from assms(1) consider "fullmatch pattern s"
    | "s \<noteq> []" "last s = CHR 0x0A" "fullmatch pattern (butlast s)"
    unfolding is_coordinate_def by blast
  then show ?thesis
  proof cases
    case 1
    then have "matches pattern s" by (rule fullmatch_matches)
    from parse_pattern [OF this clean, of "[]"] show ?thesis by (simp add: is_space_def)
  next
    case 2
    from 2(3) have m: "matches pattern (butlast s)" by (rule fullmatch_matches)
    from clean have "\<forall>c \<in> set (butlast s). c \<notin> set separators"
      by (auto dest: in_set_butlastD)
    from parse_pattern [OF m this, of "[CHR 0x0A]"] 2(1,2)
    show ?thesis
      using append_butlast_last_id [OF 2(1)] by (simp add: is_space_def float_space_def)
  qed
qed

subsection \<open>The loop\<close>

lemma fst_after [simp]: "fst (after reqs r) = fst r"
  by (simp add: after_def)

lemma snd_after [simp]: "snd (after reqs r) = reqs @ snd r"
  by (simp add: after_def)

lemma accepted_Nil [simp]: "accepted w c origin [] = []"
  by (simp add: accepted_def List.map_filter_simps)

lemma accepted_Cons:
  "accepted w c origin (p # ps) =
     (case fst (visit w c origin p) of
        Accept r \<Rightarrow> r # accepted w c origin ps
      | _ \<Rightarrow> accepted w c origin ps)"
  by (simp add: accepted_def List.map_filter_simps split: step.splits)

lemma collect_take:
  assumes "0 \<le> max_results c"
    and "length acc \<le> nat (max_results c)"
    and "fst (collect w c origin ps acc) = Inr rs"
  shows "rs = take (nat (max_results c)) (acc @ accepted w c origin ps)"
  using assms(2,3)
proof (induction ps arbitrary: acc)
  case Nil
  then show ?case by simp
next
  case (Cons p ps)
  show ?case
  proof (cases "int (length acc) = max_results c")
    case True
    then have "length acc = nat (max_results c)" by simp
    with Cons.prems True show ?thesis by simp
  next
    case False
    with Cons.prems(1) assms(1) have lt: "length acc < nat (max_results c)" by linarith
    obtain st reqs where v: "visit w c origin p = (st, reqs)" by (cases "visit w c origin p")
    show ?thesis
    proof (cases st)
      case Skip
      with v False Cons.prems have "fst (collect w c origin ps acc) = Inr rs" by simp
      from Cons.IH [OF Cons.prems(1) this] Skip v show ?thesis
        by (simp add: accepted_Cons)
    next
      case (Accept r)
      with v False Cons.prems have "fst (collect w c origin ps (acc @ [r])) = Inr rs" by simp
      moreover from lt have "length (acc @ [r]) \<le> nat (max_results c)" by simp
      ultimately have "rs = take (nat (max_results c)) ((acc @ [r]) @ accepted w c origin ps)"
        by (rule Cons.IH [rotated])
      with Accept v show ?thesis by (simp add: accepted_Cons)
    next
      case (Raise e)
      with v False Cons.prems show ?thesis by simp
    qed
  qed
qed

lemma collect_filter:
  assumes "\<And>p. p \<in> set ps \<Longrightarrow> \<not> keep p \<Longrightarrow> fst (visit w c origin p) = Skip"
  shows "fst (collect w c origin (filter keep ps) acc) = fst (collect w c origin ps acc)"
  using assms
proof (induction ps arbitrary: acc)
  case Nil
  then show ?case by simp
next
  case (Cons p ps)
  have IH: "\<And>acc. fst (collect w c origin (filter keep ps) acc) = fst (collect w c origin ps acc)"
    using Cons.IH Cons.prems by simp
  show ?case
  proof (cases "keep p")
    case True
    then show ?thesis by (simp add: IH split: prod.splits step.splits)
  next
    case False
    with Cons.prems have sk: "fst (visit w c origin p) = Skip" by simp
    show ?thesis
    proof (cases "int (length acc) = max_results c")
      case True
      have "fst (collect w c origin qs acc) = Inr acc" for qs
        using True by (cases qs) simp_all
      with True show ?thesis by simp
    next
      case nf: False
      from sk obtain reqs where "visit w c origin p = (Skip, reqs)"
        by (cases "visit w c origin p") simp
      with False nf show ?thesis by (simp add: IH)
    qed
  qed
qed


subsection \<open>Runs in the sample world\<close>

lemmas pattern_defs = is_coordinate_def pattern_def sign_re_def lat_re_def lng_re_def
  fraction_re_def Opt_def Plus_def Lit_def digits_def whitespace_def

lemmas float_defs = parse_coordinate_def py_float_def strip_def float_space_def
  unsigned_float_def digits_def nat_of_digits_def digit_val_def

lemma resolve_zero: "resolve_location w ''0,0'' = (Inr (0, 0), [])"
  by (simp add: resolve_location_def pattern_defs float_defs)

lemma due_north_nonneg: "0 \<le> m \<Longrightarrow> 0 \<le> fst (due_north m)"
  by (simp add: due_north_def)

lemmas sample_defs = sample_world_def sample_places_def sample_details_def no_details_def
  sample_criteria_def

lemmas visit_defs = visit_def below_min_rating_def above_max_price_def eta_wanted_def
  rating_or_zero_def price_or_five_def
  get_driving_eta_def make_restaurant_def py_round_def after_def

lemmas sample_run = get_nearby_restaurants_def resolve_zero keyword_of_def sample_defs visit_defs
  haversine_0 haversine_400 haversine_1200 due_north_nonneg

lemma not_coordinate_Springfield: "\<not> is_coordinate ''Springfield''"
  by (simp add: pattern_defs)

lemma not_coordinate_Atlantis: "\<not> is_coordinate ''Atlantis''"
  by (simp add: pattern_defs)

lemma collect_cong:
  assumes "\<And>p. visit w c origin p = visit w c' origin p" and "max_results c = max_results c'"
  shows "collect w c origin ps acc = collect w c' origin ps acc"
  by (induction ps arbitrary: acc) (simp_all add: assms split: prod.splits step.splits)

subsection \<open>One pass of the loop body\<close>

lemma visit_cases:
  "visit w c origin p =
     (if below_min_rating (min_rating c) (place_details w (place_id p))
         \<or> above_max_price (max_price c) (place_details w (place_id p))
      then (Skip, [PlaceDetails (place_id p)])
      else case haversine_distance origin (location p) of
             Inl e \<Rightarrow> (Raise e, [PlaceDetails (place_id p)])
           | Inr sd \<Rightarrow>
               if eta_wanted (get_eta c) (eta_threshold c) sd
               then (case fst (get_driving_eta w origin (location p)) of
                       Inl e \<Rightarrow> Raise e
                     | Inr eta \<Rightarrow>
                         Accept (make_restaurant (place_details w (place_id p)) eta
                                   (py_round (sd / 10) * 10)),
                     [PlaceDetails (place_id p), Directions origin (location p)])
               else (Accept (make_restaurant (place_details w (place_id p)) None
                               (py_round (sd / 10) * 10)),
                     [PlaceDetails (place_id p)]))"
  by (simp add: visit_def Let_def get_driving_eta_def split: sum.splits)

lemma visit_Skip_iff:
  "fst (visit w c origin p) = Skip \<longleftrightarrow>
     below_min_rating (min_rating c) (place_details w (place_id p))
     \<or> above_max_price (max_price c) (place_details w (place_id p))"
  by (simp add: visit_cases haversine_distance_eq split: sum.splits)

lemma visit_Skip_requests:
  "fst (visit w c origin p) = Skip \<Longrightarrow> visit w c origin p = (Skip, [PlaceDetails (place_id p)])"
  by (simp add: visit_cases split: if_splits sum.splits)

lemma visit_Accept:
  assumes "fst (visit w c origin p) = Accept r"
  shows "Rating r = (case rating (place_details w (place_id p)) of
                       None \<Rightarrow> Inr ''N/A'' | Some x \<Rightarrow> Inl x)"
    and "\<not> below_min_rating (min_rating c) (place_details w (place_id p))"
    and "\<not> above_max_price (max_price c) (place_details w (place_id p))"
  using assms
  by (auto simp: visit_cases make_restaurant_def haversine_distance_eq split: if_splits sum.splits)

lemma accepted_set:
  "r \<in> set (accepted w c origin ps) \<longleftrightarrow> (\<exists>p \<in> set ps. fst (visit w c origin p) = Accept r)"
  by (induction ps) (auto simp: accepted_Cons split: step.splits)

lemma collect_subset:
  "fst (collect w c origin ps acc) = Inr rs \<Longrightarrow> set rs \<subseteq> set acc \<union> set (accepted w c origin ps)"
proof (induction ps arbitrary: acc)
  case Nil
  then show ?case by simp
next
  case (Cons p ps)
  show ?case
  proof (cases "int (length acc) = max_results c")
    case True
    with Cons.prems show ?thesis by auto
  next
    case False
    obtain st reqs where v: "visit w c origin p = (st, reqs)" by (cases "visit w c origin p")
    show ?thesis
    proof (cases st)
      case Skip
      with v False Cons.prems have "fst (collect w c origin ps acc) = Inr rs" by simp
      from Cons.IH [OF this] Skip v show ?thesis by (simp add: accepted_Cons)
    next
      case (Accept r)
      with v False Cons.prems have "fst (collect w c origin ps (acc @ [r])) = Inr rs" by simp
      from Cons.IH [OF this] Accept v show ?thesis by (auto simp: accepted_Cons)
    next
      case (Raise e)
      with v False Cons.prems show ?thesis by simp
    qed
  qed
qed

lemma shown_rating_make [simp]:
  "shown_rating (make_restaurant d eta rd) = rating_or_zero d"
  by (simp add: shown_rating_def make_restaurant_def rating_or_zero_def split: option.splits)

lemma visit_Accept_shown:
  "fst (visit w c origin p) = Accept r \<Longrightarrow> shown_rating r = rating_or_zero (place_details w (place_id p))"
  by (auto simp: visit_cases haversine_distance_eq split: if_splits sum.splits)

lemma pipeline_loop:
  assumes "resolve_location w s = (Inr origin, reqs)"
    and "res_status (nearbysearch w origin (distance c) (keyword_of (search c))) = ''OK''"
  shows "get_nearby_restaurants w s c =
           after (reqs @ [NearbySearch origin (distance c) (keyword_of (search c))])
             (collect w c origin
                (res_results (nearbysearch w origin (distance c) (keyword_of (search c)))) [])"
  using assms by (simp add: get_nearby_restaurants_def Let_def)

lemma replicate_numeral: "replicate (numeral k) x = x # replicate (pred_numeral k) x"
  by (simp add: numeral_eq_Suc)

lemma visit_no_geocode: "Geocode q \<notin> set (snd (visit w c origin p))"
  by (simp add: visit_cases haversine_distance_eq)

lemma collect_no_geocode: "Geocode q \<notin> set (snd (collect w c origin ps acc))"
proof (induction ps arbitrary: acc)
  case Nil
  then show ?case by simp
next
  case (Cons p ps)
  obtain st reqs where v: "visit w c origin p = (st, reqs)" by (cases "visit w c origin p")
  with visit_no_geocode [of q w c origin p] have "Geocode q \<notin> set reqs" by simp
  with v Cons.IH show ?case by (cases st) simp_all
qed

lemma visit_asks_details: "PlaceDetails (place_id p) \<in> set (snd (visit w c origin p))"
  by (simp add: visit_cases haversine_distance_eq)

lemma collect_visits_all:
  assumes "fst (collect w c origin ps acc) = Inr rs" and "int (length rs) \<noteq> max_results c"
  shows "\<forall>p \<in> set ps. PlaceDetails (place_id p) \<in> set (snd (collect w c origin ps acc))"
  using assms(1)
proof (induction ps arbitrary: acc)
  case Nil
  then show ?case by simp
next
  case (Cons p ps)
  show ?case
  proof (cases "int (length acc) = max_results c")
    case True
    with Cons.prems have "rs = acc" by simp
    with True assms(2) show ?thesis by simp
  next
    case False
    obtain st reqs where v: "visit w c origin p = (st, reqs)" by (cases "visit w c origin p")
    with visit_asks_details [of p w c origin] have asked: "PlaceDetails (place_id p) \<in> set reqs"
      by simp
    show ?thesis
    proof (cases st)
      case Skip
      with v False Cons.prems have "fst (collect w c origin ps acc) = Inr rs" by simp
      from Cons.IH [OF this] Skip v False asked show ?thesis by simp
    next
      case (Accept r)
      with v False Cons.prems have "fst (collect w c origin ps (acc @ [r])) = Inr rs" by simp
      from Cons.IH [OF this] Accept v False asked show ?thesis by simp
    next
      case (Raise e)
      with v False Cons.prems show ?thesis by simp
    qed
  qed
qed

subsection \<open>Coordinate literals\<close>

text \<open>
  What holds for every string that \<^const>\<open>is_coordinate\<close> accepts: the resolver issues no
  request and returns what parsing returns, and the whole run issues no geocoding
  request. If the string contains none of the separators U+001C to U+001F, parsing
  succeeds, with the latitude in \<open>[-90, 90]\<close> and the longitude in \<open>[-180, 180]\<close>.
  The string \<^verbatim>\<open>"40.7128,-74.0060"\<close> is accepted and resolved to \<open>(40.7128, -74.0060)\<close>.
\<close>

lemma coordinate_literal_resolved:
  "(is_coordinate s \<longrightarrow>
      (resolve_location w s = (parse_coordinate s, [])) \<and>
      (\<forall>q. Geocode q \<notin> set (snd (get_nearby_restaurants w s c))) \<and>
      ((\<forall>ch \<in> set s. ch \<notin> set separators) \<longrightarrow>
         (\<exists>lat lng. resolve_location w s = (Inr (lat, lng), [])
            \<and> \<bar>lat\<bar> \<le> 90 \<and> \<bar>lng\<bar> \<le> 180))) \<and>
   is_coordinate ''40.7128,-74.0060'' \<and>
   resolve_location w ''40.7128,-74.0060'' = (Inr (40.7128, -74.0060), [])"
proof (intro conjI impI allI)
  assume ok: "is_coordinate s"
  then show r: "resolve_location w s = (parse_coordinate s, [])"
    by (simp add: resolve_location_def)
  show "Geocode q \<notin> set (snd (get_nearby_restaurants w s c))" for q
    by (cases "parse_coordinate s")
       (simp_all add: get_nearby_restaurants_def r Let_def collect_no_geocode)
  assume "\<forall>ch \<in> set s. ch \<notin> set separators"
  from is_coordinate_parse [OF ok this] r
  show "\<exists>lat lng. resolve_location w s = (Inr (lat, lng), []) \<and> \<bar>lat\<bar> \<le> 90 \<and> \<bar>lng\<bar> \<le> 180"
    by auto
next
  show "is_coordinate ''40.7128,-74.0060''"
    by (simp add: pattern_defs)
  then show "resolve_location w ''40.7128,-74.0060'' = (Inr (40.7128, -74.0060), [])"
    by (simp add: resolve_location_def float_defs)
qed

lemma coordinate_literal_resolved_sample:
  "is_coordinate ''40.7128,-74.0060'' \<and>
   resolve_location sample_world ''40.7128,-74.0060'' = (Inr (40.7128, -74.0060), []) \<and>
   snd (get_nearby_restaurants sample_world ''40.7128,-74.0060'' sample_criteria)
     = [NearbySearch (40.7128, -74.0060) 20000 None, PlaceDetails ''b'', PlaceDetails ''c'',
        PlaceDetails ''a'', PlaceDetails ''d'']"
proof -
  note T = coordinate_literal_resolved [of "''40.7128,-74.0060''" sample_world sample_criteria]
  note ok = T [THEN conjunct2, THEN conjunct1]
  note r = T [THEN conjunct2, THEN conjunct2]
  have "snd (get_nearby_restaurants sample_world ''40.7128,-74.0060'' sample_criteria)
     = [NearbySearch (40.7128, -74.0060) 20000 None, PlaceDetails ''b'', PlaceDetails ''c'',
        PlaceDetails ''a'', PlaceDetails ''d'']"
    unfolding get_nearby_restaurants_def r
    by (simp add: keyword_of_def sample_defs visit_cases haversine_distance_eq
        below_min_rating_def above_max_price_def eta_wanted_def)
  with ok r show ?thesis by simp
qed

section \<open>Properties\<close>

text \<open>
  Claim C1. With \<^verbatim>\<open>max_results = N\<close> for a positive \<open>N\<close>, a list returned by
  \<^const>\<open>get_nearby_restaurants\<close> has at most \<open>N\<close> elements, however many candidates the
  nearby search returned. The list the loop returns is the first \<open>N\<close> of the
  dictionaries of the candidates that pass the filters, so the cap counts accepted
  candidates and not candidates looked at; and when fewer than \<open>N\<close> were accepted, the
  details of every candidate were requested: the loop did not stop early.
\<close>

theorem max_results_cap:
  "0 < max_results c \<longrightarrow>
     (\<forall>rs. fst (get_nearby_restaurants w s c) = Inr rs \<longrightarrow> length rs \<le> nat (max_results c)) \<and>
     (\<forall>origin candidates rs.
        fst (collect w c origin candidates []) = Inr rs
        \<longrightarrow> rs = take (nat (max_results c)) (accepted w c origin candidates)
          \<and> (length rs < nat (max_results c)
               \<longrightarrow> (\<forall>p \<in> set candidates.
                      PlaceDetails (place_id p) \<in> set (snd (collect w c origin candidates [])))))"
proof (intro impI conjI allI)
  fix origin candidates rs
  assume pos: "0 < max_results c" and run: "fst (collect w c origin candidates []) = Inr rs"
  then show "rs = take (nat (max_results c)) (accepted w c origin candidates)"
    using collect_take [of c "[]" w origin candidates rs] by simp
  assume "length rs < nat (max_results c)"
  with pos have "int (length rs) \<noteq> max_results c" by simp
  with run show "\<forall>p \<in> set candidates.
      PlaceDetails (place_id p) \<in> set (snd (collect w c origin candidates []))"
    by (rule collect_visits_all)
next
  fix rs
  assume pos: "0 < max_results c" and run: "fst (get_nearby_restaurants w s c) = Inr rs"
  obtain res reqs where rl: "resolve_location w s = (res, reqs)"
    by (cases "resolve_location w s")
  show "length rs \<le> nat (max_results c)"
  proof (cases res)
    case (Inl e)
    with rl run show ?thesis by (simp add: get_nearby_restaurants_def)
  next
    case (Inr origin)
    show ?thesis
    proof (cases "res_status (nearbysearch w origin (distance c) (keyword_of (search c))) = ''OK''")
      case True
      with rl Inr run
      have "fst (collect w c origin
                   (res_results (nearbysearch w origin (distance c) (keyword_of (search c)))) [])
            = Inr rs"
        by (simp add: pipeline_loop)
      with pos have "rs = take (nat (max_results c))
          (accepted w c origin (res_results (nearbysearch w origin (distance c) (keyword_of (search c)))))"
        using collect_take [of c "[]"] by simp
      then have "length rs = min (length (accepted w c origin
          (res_results (nearbysearch w origin (distance c) (keyword_of (search c))))))
          (nat (max_results c))"
        by (simp only: length_take)
      then show ?thesis by simp
    next
      case False
      with rl Inr run show ?thesis by (simp add: get_nearby_restaurants_def Let_def)
    qed
  qed
qed

theorem max_results_cap_witness:
  "(0::int) < 1 \<and>
   (\<exists>r. get_nearby_restaurants sample_world ''0,0''
          (sample_criteria\<lparr> min_rating := Some 4, max_results := 1 \<rparr>)
        = (Inr [r], [NearbySearch (0, 0) 20000 None, PlaceDetails ''b'', PlaceDetails ''c'',
             PlaceDetails ''a''])
      \<and> Name r = ''Alfa'') \<and>
   map Name (accepted sample_world (sample_criteria\<lparr> min_rating := Some 4, max_results := 1 \<rparr>)
               (0, 0) sample_places) = [''Alfa'', ''Delta'']"
  using max_results_cap [of "sample_criteria\<lparr> min_rating := Some 4, max_results := 1 \<rparr>"
      sample_world "''0,0''"]
  by (simp add: sample_run accepted_def List.map_filter_simps)

text \<open>
  Claim C2. Let \<^verbatim>\<open>min_rating\<close> be set to \<open>m\<close>. Ratings of the details service are taken
  to be non-negative when \<open>m\<close> is zero (for any other \<open>m\<close> nothing is assumed). Then a
  candidate whose rating, an absent rating counting as 0, is below \<open>m\<close> is skipped by
  the loop body; the loop returns what it returns with those candidates removed from the
  candidate list; every returned dictionary shows a rating of at least \<open>m\<close> (with
  \<^verbatim>\<open>"N/A"\<close> read as 0); and for \<open>m > 0\<close> a candidate with no rating is skipped.
\<close>

theorem min_rating_filter:
  assumes mr: "min_rating c = Some m"
    and nonneg: "m = 0 \<longrightarrow>
        (\<forall>p \<in> set candidates. 0 \<le> rating_or_zero (place_details w (place_id p)))"
  shows
    "(\<forall>p \<in> set candidates.
        rating_or_zero (place_details w (place_id p)) < m
        \<longrightarrow> visit w c origin p = (Skip, [PlaceDetails (place_id p)])) \<and>
     fst (collect w c origin candidates [])
       = fst (collect w c origin
                (filter (\<lambda>p. \<not> rating_or_zero (place_details w (place_id p)) < m) candidates) []) \<and>
     (\<forall>rs. fst (collect w c origin candidates []) = Inr rs
        \<longrightarrow> (\<forall>r \<in> set rs. m \<le> shown_rating r)) \<and>
     (0 < m \<longrightarrow>
        (\<forall>p \<in> set candidates.
           rating (place_details w (place_id p)) = None
           \<longrightarrow> visit w c origin p = (Skip, [PlaceDetails (place_id p)])))"
proof -
  have skip: "visit w c origin p = (Skip, [PlaceDetails (place_id p)])"
    if "p \<in> set candidates" "rating_or_zero (place_details w (place_id p)) < m" for p
  proof -
    from that nonneg have "m \<noteq> 0" by auto
    with that mr have "below_min_rating (min_rating c) (place_details w (place_id p))"
      by (simp add: below_min_rating_def)
    then show ?thesis by (simp add: visit_cases)
  qed
  have same: "fst (collect w c origin
                (filter (\<lambda>p. \<not> rating_or_zero (place_details w (place_id p)) < m) candidates) [])
              = fst (collect w c origin candidates [])"
    by (rule collect_filter) (simp add: skip)
  have shown: "m \<le> shown_rating r"
    if run: "fst (collect w c origin candidates []) = Inr rs" and r: "r \<in> set rs" for rs r
  proof -
    from collect_subset [OF run] r have "r \<in> set (accepted w c origin candidates)" by auto
    then obtain p where p: "p \<in> set candidates" "fst (visit w c origin p) = Accept r"
      by (auto simp: accepted_set)
    then have "\<not> rating_or_zero (place_details w (place_id p)) < m"
      using skip [of p] by auto
    with visit_Accept_shown [OF p(2)] show ?thesis by simp
  qed
  have absent: "visit w c origin p = (Skip, [PlaceDetails (place_id p)])"
    if "0 < m" "p \<in> set candidates" "rating (place_details w (place_id p)) = None" for p
    using that skip [of p] by (simp add: rating_or_zero_def)
  from skip same shown absent show ?thesis
    by (intro conjI ballI allI impI) simp_all
qed

theorem min_rating_filter_witness:
  "min_rating (sample_criteria\<lparr> min_rating := Some 4 \<rparr>) = Some 4 \<and>
   rating_or_zero (place_details sample_world ''b'') = 3 \<and>
   rating (place_details sample_world ''c'') = None \<and>
   (\<exists>rs. fst (collect sample_world (sample_criteria\<lparr> min_rating := Some 4 \<rparr>) (0, 0)
               sample_places []) = Inr rs
        \<and> map Name rs = [''Alfa'', ''Delta''] \<and> map shown_rating rs = [4.5, 4.8]) \<and>
   filter (\<lambda>p. \<not> rating_or_zero (place_details sample_world (place_id p)) < 4) sample_places
     = [\<lparr> place_id = ''a'', location = due_north 400 \<rparr>,
        \<lparr> place_id = ''d'', location = due_north 1200 \<rparr>]"
  using min_rating_filter [of "sample_criteria\<lparr> min_rating := Some 4 \<rparr>" 4 sample_places
      sample_world "(0, 0)"]
  by (simp add: sample_run shown_rating_def)

text \<open>
  Claim C3. With \<^verbatim>\<open>max_price\<close> set to a tier from 1 to 4, a candidate with no price tier
  is skipped, a candidate with a higher tier is skipped, and the loop returns what it
  returns for the candidates whose tier is present and at most \<^verbatim>\<open>max_price\<close>. With
  \<^verbatim>\<open>max_price\<close> unset, a candidate is skipped exactly when the rating test rejects it,
  and that test does not read the price tier.
\<close>

theorem max_price_filter:
  "(\<forall>mp. max_price c = Some mp \<and> 1 \<le> mp \<and> mp \<le> 4 \<longrightarrow>
      (\<forall>p. price_level (place_details w (place_id p)) = None
         \<longrightarrow> visit w c origin p = (Skip, [PlaceDetails (place_id p)])) \<and>
      (\<forall>p l. price_level (place_details w (place_id p)) = Some l \<and> mp < l
         \<longrightarrow> visit w c origin p = (Skip, [PlaceDetails (place_id p)])) \<and>
      fst (collect w c origin candidates [])
        = fst (collect w c origin
                 (filter (\<lambda>p. \<exists>l. price_level (place_details w (place_id p)) = Some l \<and> l \<le> mp)
                    candidates) [])) \<and>
   (max_price c = None \<longrightarrow>
      (\<forall>p. fst (visit w c origin p) = Skip
         \<longleftrightarrow> below_min_rating (min_rating c) (place_details w (place_id p))) \<and>
      (\<forall>d l. below_min_rating (min_rating c) (d\<lparr> price_level := l \<rparr>)
               = below_min_rating (min_rating c) d))"
proof -
  have set_case: "visit w c origin p = (Skip, [PlaceDetails (place_id p)])"
    if "max_price c = Some mp" "1 \<le> mp" "mp \<le> 4"
      and "\<not> (\<exists>l. price_level (place_details w (place_id p)) = Some l \<and> l \<le> mp)" for mp p
  proof -
    from that have "above_max_price (max_price c) (place_details w (place_id p))"
      by (cases "price_level (place_details w (place_id p))")
         (auto simp: above_max_price_def price_or_five_def)
    then show ?thesis by (simp add: visit_cases)
  qed
  have filtered: "fst (collect w c origin
                 (filter (\<lambda>p. \<exists>l. price_level (place_details w (place_id p)) = Some l \<and> l \<le> mp)
                    candidates) []) = fst (collect w c origin candidates [])"
    if "max_price c = Some mp" "1 \<le> mp" "mp \<le> 4" for mp
    by (rule collect_filter) (simp add: set_case [OF that])
  have unset: "fst (visit w c origin p) = Skip
         \<longleftrightarrow> below_min_rating (min_rating c) (place_details w (place_id p))"
    if "max_price c = None" for p
    using that by (simp add: visit_Skip_iff above_max_price_def)
  have indep: "below_min_rating mr (d\<lparr> price_level := l \<rparr>) = below_min_rating mr d" for mr d l
    by (cases mr) (simp_all add: below_min_rating_def rating_or_zero_def)
  show ?thesis
  proof (intro conjI allI impI; (elim conjE)?)
    fix mp and p :: place
    assume "max_price c = Some mp" "1 \<le> mp" "mp \<le> 4"
      and "price_level (place_details w (place_id p)) = None"
    then show "visit w c origin p = (Skip, [PlaceDetails (place_id p)])"
      by (intro set_case [of mp]) simp_all
  next
    fix mp l and p :: place
    assume "max_price c = Some mp" "1 \<le> mp" "mp \<le> 4"
      and "price_level (place_details w (place_id p)) = Some l" "mp < l"
    then show "visit w c origin p = (Skip, [PlaceDetails (place_id p)])"
      by (intro set_case [of mp]) simp_all
  next
    fix mp
    assume "max_price c = Some mp" "1 \<le> mp" "mp \<le> 4"
    then show "fst (collect w c origin candidates [])
        = fst (collect w c origin
                 (filter (\<lambda>p. \<exists>l. price_level (place_details w (place_id p)) = Some l \<and> l \<le> mp)
                    candidates) [])"
      by (simp add: filtered)
  next
    fix p :: place
    assume "max_price c = None"
    then show "fst (visit w c origin p) = Skip
         \<longleftrightarrow> below_min_rating (min_rating c) (place_details w (place_id p))"
      by (rule unset)
  next
    fix d l
    show "below_min_rating (min_rating c) (d\<lparr> price_level := l \<rparr>)
               = below_min_rating (min_rating c) d"
      by (rule indep)
  qed
qed

theorem max_price_filter_witness:
  "max_price (sample_criteria\<lparr> max_price := Some 2 \<rparr>) = Some 2 \<and>
   price_level (place_details sample_world ''b'') = None \<and>
   price_level (place_details sample_world ''c'') = Some 4 \<and>
   (\<exists>rs. fst (collect sample_world (sample_criteria\<lparr> max_price := Some 2 \<rparr>) (0, 0)
               sample_places []) = Inr rs
        \<and> map Name rs = [''Alfa'', ''Delta''] \<and> map Price_Level rs = [''$$'', ''$'']) \<and>
   (\<exists>rs. fst (collect sample_world sample_criteria (0, 0) sample_places []) = Inr rs
        \<and> map Name rs = [''Bravo'', ''Charlie'', ''Alfa'', ''Delta'']
        \<and> map Price_Level rs = ['''', ''$$$$'', ''$$'', ''$''])"
  using max_price_filter [of "sample_criteria\<lparr> max_price := Some 2 \<rparr>" sample_world "(0, 0)"
      sample_places]
    max_price_filter [of sample_criteria sample_world "(0, 0)" sample_places]
  by (simp add: sample_run replicate_numeral)

text \<open>
  Claim C4. For a candidate that passes both filters, at straight-line distance \<open>sd\<close>
  from the origin: a directions request for it is issued exactly when \<^verbatim>\<open>get_eta\<close> is set
  and \<^verbatim>\<open>eta_threshold\<close> is \<^verbatim>\<open>None\<close>, is zero, or is below \<open>sd\<close>; otherwise the candidate
  is accepted after the details request alone and its \<^verbatim>\<open>Driving ETA\<close> is \<^verbatim>\<open>None\<close>. With
  \<^verbatim>\<open>get_eta=True\<close> and \<^verbatim>\<open>eta_threshold=1000\<close> the request is issued at 1200 m and not
  at 400 m.
\<close>

theorem eta_lookup_iff:
  "fst (visit w c origin p) \<noteq> Skip \<and> haversine_distance origin (location p) = Inr sd \<longrightarrow>
     (Directions origin (location p) \<in> set (snd (visit w c origin p))
        \<longleftrightarrow> eta_wanted (get_eta c) (eta_threshold c) sd) \<and>
     (eta_wanted (get_eta c) (eta_threshold c) sd
        \<longrightarrow> snd (visit w c origin p) = [PlaceDetails (place_id p), Directions origin (location p)]) \<and>
     (\<not> eta_wanted (get_eta c) (eta_threshold c) sd
        \<longrightarrow> (\<exists>r. visit w c origin p = (Accept r, [PlaceDetails (place_id p)])
                \<and> Driving_ETA r = None)) \<and>
     (eta_wanted (get_eta c) (eta_threshold c) sd
        \<longleftrightarrow> get_eta c \<and> (eta_threshold c = None \<or> eta_threshold c = Some 0
                          \<or> (\<exists>t. eta_threshold c = Some t \<and> real_of_int t < sd))) \<and>
     eta_wanted True (Some 1000) 1200 \<and> \<not> eta_wanted True (Some 1000) 400"
  by (auto simp: visit_cases eta_wanted_def make_restaurant_def split: if_splits option.splits)

theorem eta_lookup_iff_witness:
  "haversine_distance (0, 0) (due_north 1200) = Inr 1200 \<and>
   haversine_distance (0, 0) (due_north 400) = Inr 400 \<and>
   fst (visit sample_world (sample_criteria\<lparr> get_eta := True, eta_threshold := Some 1000 \<rparr>)
          (0, 0) \<lparr> place_id = ''d'', location = due_north 1200 \<rparr>) \<noteq> Skip \<and>
   (\<exists>rs. get_nearby_restaurants sample_world ''0,0''
            (sample_criteria\<lparr> get_eta := True, eta_threshold := Some 1000 \<rparr>)
          = (Inr rs, [NearbySearch (0, 0) 20000 None, PlaceDetails ''b'', PlaceDetails ''c'',
               PlaceDetails ''a'', PlaceDetails ''d'', Directions (0, 0) (due_north 1200)])
        \<and> map Haversine_Distance rs = [0, 0, 400, 1200]
        \<and> map Driving_ETA rs = [None, None, None, Some ''3 mins''])"
  using eta_lookup_iff [of sample_world
      "sample_criteria\<lparr> get_eta := True, eta_threshold := Some 1000 \<rparr>" "(0, 0)"
      "\<lparr> place_id = ''d'', location = due_north 1200 \<rparr>" 1200]
  by (simp add: sample_run)

text \<open>
  Claim C5. Every string that matches the coordinate pattern is parsed into its
  coordinate, with no geocoding request. The code does not do this for every such
  string: \<^verbatim>\<open>\s*\<close> after the comma matches the separators U+001C to U+001F, which
  \<^verbatim>\<open>float\<close> does not strip. The string \<^verbatim>\<open>"1,\x1c2"\<close> is accepted by
  \<^const>\<open>is_coordinate\<close>, and the run ends in \<^verbatim>\<open>ValueError\<close> (still with no
  geocoding request).
\<close>

theorem coordinate_literal_not_parsed:
  "is_coordinate (''1,'' @ [CHR 0x1C] @ ''2'') \<and>
   resolve_location w (''1,'' @ [CHR 0x1C] @ ''2'') = (Inl ValueError, []) \<and>
   get_nearby_restaurants w (''1,'' @ [CHR 0x1C] @ ''2'') c = (Inl ValueError, [])"
proof -
  have ok: "is_coordinate (''1,'' @ [CHR 0x1C] @ ''2'')"
    by (simp add: pattern_defs)
  have "parse_coordinate (''1,'' @ [CHR 0x1C] @ ''2'') = Inl ValueError"
    by (simp add: float_defs)
  with ok have r: "resolve_location w (''1,'' @ [CHR 0x1C] @ ''2'') = (Inl ValueError, [])"
    by (simp add: resolve_location_def)
  from ok r show ?thesis
    by (simp add: get_nearby_restaurants_def)
qed

text \<open>
  Claim C6. When the location has been resolved and the nearby-search response's status
  is not \<^verbatim>\<open>OK\<close>, \<^const>\<open>get_nearby_restaurants\<close> returns the empty list (a value,
  not an exception), and the nearby-search request is the last request of the run: no
  details request and no directions request is issued.
\<close>

theorem nearby_search_not_ok:
  "resolve_location w s = (Inr origin, reqs) \<and>
   res_status (nearbysearch w origin (distance c) (keyword_of (search c))) \<noteq> ''OK''
   \<longrightarrow> get_nearby_restaurants w s c
         = (Inr [], reqs @ [NearbySearch origin (distance c) (keyword_of (search c))])
       \<and> (reqs = [] \<or> reqs = [Geocode s])"
  by (auto simp: get_nearby_restaurants_def resolve_location_def get_location_coordinates_def
      Let_def split: if_splits)

theorem nearby_search_not_ok_witness:
  "resolve_location sample_world ''0,0'' = (Inr (0, 0), []) \<and>
   res_status (nearbysearch sample_world (0, 0) 20000 (Some ''sushi'')) = ''ZERO_RESULTS'' \<and>
   get_nearby_restaurants sample_world ''0,0'' (sample_criteria\<lparr> search := Some ''sushi'' \<rparr>)
     = (Inr [], [NearbySearch (0, 0) 20000 (Some ''sushi'')])"
  using nearby_search_not_ok [of sample_world "''0,0''" "(0, 0)" "[]"
      "sample_criteria\<lparr> search := Some ''sushi'' \<rparr>"]
  by (simp add: resolve_zero sample_world_def sample_criteria_def keyword_of_def)

text \<open>
  Claim C7. For every origin and destination, \<^const>\<open>get_driving_eta\<close> issues one
  directions request; when the answer's status is not \<^verbatim>\<open>OK\<close>, or its route list is
  missing or empty, the result is \<^verbatim>\<open>None\<close> and nothing is raised; when the status is
  \<^verbatim>\<open>OK\<close> and the first route has a first leg, the result is that leg's duration text.
\<close>

theorem get_driving_eta_result:
  "snd (get_driving_eta w origin destination) = [Directions origin destination] \<and>
   (eta_status (directions w origin destination) \<noteq> ''OK''
      \<or> routes (directions w origin destination) = None
      \<or> routes (directions w origin destination) = Some []
    \<longrightarrow> fst (get_driving_eta w origin destination) = Inr None) \<and>
   (\<forall>r rs l ls.
      eta_status (directions w origin destination) = ''OK''
      \<and> routes (directions w origin destination) = Some (r # rs) \<and> legs r = l # ls
    \<longrightarrow> fst (get_driving_eta w origin destination) = Inr (Some (duration_text l)))"
  unfolding get_driving_eta_def Let_def
  by (auto split: option.splits list.splits)

theorem get_driving_eta_result_witness:
  "fst (get_driving_eta sample_world (0, 0) (1, 1)) = Inr (Some ''3 mins'') \<and>
   fst (get_driving_eta sample_world (0, 0) (-1, 1)) = Inr None \<and>
   snd (get_driving_eta sample_world (0, 0) (1, 1)) = [Directions (0, 0) (1, 1)]"
  using get_driving_eta_result [of sample_world "(0, 0)" "(1, 1)"]
    get_driving_eta_result [of sample_world "(0, 0)" "(-1, 1)"]
  by (simp add: sample_world_def)

text \<open>
  Claim C8. For a location string that is not a coordinate literal the resolver is
  \<^const>\<open>get_location_coordinates\<close>: it issues one geocoding request; it fails with the
  error that carries the geocoding response exactly when the response's status is not
  \<^verbatim>\<open>OK\<close>, and that failure ends the whole run; when the status is \<^verbatim>\<open>OK\<close> it returns
  the coordinate of the first result, whatever results follow.
\<close>

theorem get_location_coordinates_result:
  "snd (get_location_coordinates w s) = [Geocode s] \<and>
   ((\<exists>payload. fst (get_location_coordinates w s) = Inl (CouldNotFetchCoordinates payload))
      \<longleftrightarrow> geo_status (geocode w s) \<noteq> ''OK'') \<and>
   (geo_status (geocode w s) \<noteq> ''OK''
      \<longrightarrow> fst (get_location_coordinates w s) = Inl (CouldNotFetchCoordinates (geocode w s))) \<and>
   (\<forall>first others.
      geo_status (geocode w s) = ''OK'' \<and> geo_results (geocode w s) = first # others
      \<longrightarrow> fst (get_location_coordinates w s) = Inr first) \<and>
   (\<not> is_coordinate s \<longrightarrow> resolve_location w s = get_location_coordinates w s) \<and>
   (\<not> is_coordinate s \<and> geo_status (geocode w s) \<noteq> ''OK''
      \<longrightarrow> get_nearby_restaurants w s c
            = (Inl (CouldNotFetchCoordinates (geocode w s)), [Geocode s]))"
  by (auto simp: get_location_coordinates_def resolve_location_def get_nearby_restaurants_def
      Let_def split: list.splits)

theorem get_location_coordinates_result_witness:
  "\<not> is_coordinate ''Springfield'' \<and> \<not> is_coordinate ''Atlantis'' \<and>
   geo_status (geocode sample_world ''Springfield'') = ''OK'' \<and>
   resolve_location sample_world ''Springfield'' = (Inr (40, -75), [Geocode ''Springfield'']) \<and>
   geo_status (geocode sample_world ''Atlantis'') \<noteq> ''OK'' \<and>
   get_nearby_restaurants sample_world ''Atlantis'' sample_criteria
     = (Inl (CouldNotFetchCoordinates \<lparr> geo_status = ''ZERO_RESULTS'', geo_results = [] \<rparr>),
        [Geocode ''Atlantis''])"
  using get_location_coordinates_result [of sample_world "''Springfield''" sample_criteria]
    get_location_coordinates_result [of sample_world "''Atlantis''" sample_criteria]
    not_coordinate_Springfield not_coordinate_Atlantis
  by (simp add: sample_world_def prod_eq_iff)

text \<open>
  Claim C9. The distance is symmetric, zero between equal points, and has no failure
  mode. Symmetry and the zero hold in double precision for all arguments
  (\<open>haversine_distance_double_sym\<close>, \<open>haversine_distance_double_same\<close>), and over
  the reals all three hold (\<open>haversine_distance_real\<close>). In double precision the
  function can fail: for the antipodal points \<^verbatim>\<open>(8.0, 0.0)\<close> and \<^verbatim>\<open>(-8.0, 180.0)\<close>
  the term \<open>a\<close>, exactly 1 over the reals, is computed as \<open>1 + 1 / 2 ^ 52\<close>, so \<open>1 - a\<close>
  is negative and \<^verbatim>\<open>math.sqrt\<close> raises \<^verbatim>\<open>ValueError\<close>.
\<close>

theorem haversine_distance_double_antipodal:
  "haversine_a_double (8, 0) (- 8, 180) = 1 + 1 / 2 ^ 52 \<and>
   haversine_distance_double (8, 0) (- 8, 180) = Inl ValueError"
proof -
  have a: "haversine_a_double (8, 0) (- 8, 180) = 1 + 1 / 2 ^ 52"
    unfolding haversine_a_double_antipodal by simp
  have "fl (1 - (1 + 1 / 2 ^ 52)) = of_int (- (2 ^ 52)) / 2 ^ 104"
    using fl_exact [of "- (2 ^ 52)" 104] by simp
  then have neg: "fl (1 - (1 + 1 / 2 ^ 52)) < 0"
    by simp
  have pos: "\<not> (1 + 1 / 2 ^ 52 :: real) < 0"
    by simp
  have "haversine_distance_double (8, 0) (- 8, 180) = Inl ValueError"
    unfolding haversine_distance_double_def Let_def a math_sqrt_def
    using neg pos by simp
  with a show ?thesis ..
qed

text \<open>
  Claim C10. A criterion of zero switches its filter off: with \<^verbatim>\<open>min_rating=0\<close> the run
  is the run with \<^verbatim>\<open>min_rating=None\<close>, and with \<^verbatim>\<open>max_price=0\<close> it is the run with
  \<^verbatim>\<open>max_price=None\<close> (same result, same requests).
\<close>

theorem zero_disables_filter:
  "get_nearby_restaurants w s (c\<lparr> min_rating := Some 0 \<rparr>)
     = get_nearby_restaurants w s (c\<lparr> min_rating := None \<rparr>) \<and>
   get_nearby_restaurants w s (c\<lparr> max_price := Some 0 \<rparr>)
     = get_nearby_restaurants w s (c\<lparr> max_price := None \<rparr>)"
proof -
  have r: "collect w (c\<lparr> min_rating := Some 0 \<rparr>) origin ps acc
             = collect w (c\<lparr> min_rating := None \<rparr>) origin ps acc" for origin ps acc
    by (rule collect_cong) (simp_all add: visit_def below_min_rating_def Let_def haversine_distance_eq)
  have p: "collect w (c\<lparr> max_price := Some 0 \<rparr>) origin ps acc
             = collect w (c\<lparr> max_price := None \<rparr>) origin ps acc" for origin ps acc
    by (rule collect_cong) (simp_all add: visit_def above_max_price_def Let_def haversine_distance_eq)
  show ?thesis
    by (simp add: get_nearby_restaurants_def r p Let_def split: prod.splits sum.splits)
qed

theorem zero_disables_filter_witness:
  "(\<exists>rs. get_nearby_restaurants sample_world ''0,0'' (sample_criteria\<lparr> min_rating := Some 0 \<rparr>)
          = (Inr rs, [NearbySearch (0, 0) 20000 None, PlaceDetails ''b'', PlaceDetails ''c'',
               PlaceDetails ''a'', PlaceDetails ''d''])
        \<and> map Name rs = [''Bravo'', ''Charlie'', ''Alfa'', ''Delta'']) \<and>
   (\<exists>rs. get_nearby_restaurants sample_world ''0,0'' (sample_criteria\<lparr> max_price := Some 0 \<rparr>)
          = (Inr rs, [NearbySearch (0, 0) 20000 None, PlaceDetails ''b'', PlaceDetails ''c'',
               PlaceDetails ''a'', PlaceDetails ''d''])
        \<and> map Name rs = [''Bravo'', ''Charlie'', ''Alfa'', ''Delta''])"
  unfolding zero_disables_filter [THEN conjunct1] zero_disables_filter [THEN conjunct2]
  by (simp add: sample_run)

end
